theory Spec2Isabelle
  imports Complex_Main "HOL-Library.Multiset" "HOL-Library.Product_Lexorder"
begin

section \<open>Python values used by the leaderboard helpers\<close>

text \<open>
  The module under verification is \<^verbatim>\<open>Plugins/helpers/leaderboard.py\<close>. Python's unbounded
  integers are \<^typ>\<open>int\<close>. The names of the users and the texts the module writes are modelled as
  \<^typ>\<open>string\<close>, whose characters are the code points below 256, and the functions on
  them act character by character; the decorative glyphs of the user interface (medals,
  arrows) lie outside that range and are modelled as constructors of their own. The token
  of a button press, which \<^verbatim>\<open>strip\<close> and \<^verbatim>\<open>int\<close> read by the Unicode class of its
  characters, is modelled as the list of its code points.
  Exceptions are values of the type \<open>error\<close>; a function that can raise returns
  \<open>error + 'a\<close> with \<open>Inl\<close> for the exception.
\<close>

datatype error = ZeroDivisionError | ValueError | IndexError | TypeError | DatabaseError

text \<open>\<^verbatim>\<open>str(n)\<close> for an integer: decimal digits, with a leading minus sign when negative.\<close>

definition digit_char :: "nat \<Rightarrow> char" where
  "digit_char d = ''0123456789'' ! d"

fun str_nat :: "nat \<Rightarrow> string" where
  "str_nat n = (if n < 10 then [digit_char n] else str_nat (n div 10) @ [digit_char (n mod 10)])"

declare str_nat.simps [simp del]

definition py_str :: "int \<Rightarrow> string" where
  "py_str i = (if i < 0 then ''-'' @ str_nat (nat (- i)) else str_nat (nat i))"

section \<open>The pager\<close>

text \<open>
  \<^verbatim>\<open>InlineKeyboardButton(text, callback_data=...)\<close> is a record; an
  \<^verbatim>\<open>InlineKeyboardMarkup\<close> is the list of its rows. The two navigation captions carry an
  arrow glyph, the indicator caption is \<^verbatim>\<open>f"Page {page}/{total_pages}"\<close>.
\<close>

datatype caption = PreviousCaption | NextCaption | PlainCaption string

record button =
  caption :: caption
  callback_data :: string

type_synonym keyboard = "button list list"

text \<open>
  \<^verbatim>\<open>_build_pager_old(page, total_pages, prefix)\<close>: \<^verbatim>\<open>None\<close> when
  \<^verbatim>\<open>total_pages <= 1\<close>; otherwise the navigation row (kept only when it is not empty)
  followed by the indicator row.
\<close>

definition build_pager_old :: "int \<Rightarrow> int \<Rightarrow> string \<Rightarrow> keyboard option" where
  "build_pager_old page total_pages prefix =
     (if total_pages \<le> 1 then None
      else
        let nav_row =
              (if page > 1
               then [\<lparr>caption = PreviousCaption, callback_data = prefix @ ''_'' @ py_str (page - 1)\<rparr>]
               else [])
              @ (if page < total_pages
                 then [\<lparr>caption = NextCaption, callback_data = prefix @ ''_'' @ py_str (page + 1)\<rparr>]
                 else []);
            buttons = (if nav_row \<noteq> [] then [nav_row] else []);
            page_row =
              [\<lparr>caption = PlainCaption (''Page '' @ py_str page @ ''/'' @ py_str total_pages),
                callback_data = prefix @ '':nop''\<rparr>]
        in Some (buttons @ [page_row]))"

section \<open>Rows and the rendered page\<close>

text \<open>
  A row of the \<^verbatim>\<open>users\<close> table, or of the daily leaderboard, read through
  \<^verbatim>\<open>row['column']\<close>. Every column but the identifier may hold \<^verbatim>\<open>None\<close>, which is why
  the source reads them as \<^verbatim>\<open>row['wins'] or 0\<close>.
\<close>

record row =
  user_id :: int
  username :: "string option"
  first_name :: "string option"
  games_played :: "int option"
  wins :: "int option"
  losses :: "int option"
  rounds_played :: "int option"
  eliminations :: "int option"
  total_score :: "int option"
  penalties :: "int option"

text \<open>\<^verbatim>\<open>x or d\<close>: the default replaces \<^verbatim>\<open>None\<close>, \<^verbatim>\<open>0\<close> and the empty string.\<close>

definition or_int :: "int option \<Rightarrow> int \<Rightarrow> int" where
  "or_int x d = (case x of None \<Rightarrow> d | Some v \<Rightarrow> if v = 0 then d else v)"

definition or_str :: "string option \<Rightarrow> string \<Rightarrow> string" where
  "or_str x d = (case x of None \<Rightarrow> d | Some v \<Rightarrow> if v = [] then d else v)"

text \<open>
  The win percentage is either the integer \<^verbatim>\<open>0\<close> or the float
  \<^verbatim>\<open>round(wins / gp * 100, 1)\<close>. The float is kept symbolic: \<open>Round1 w g\<close> stands for
  \<^verbatim>\<open>round(w / g * 100, 1)\<close>.
\<close>

datatype number = IntV int | Round1 int int

datatype medal = Gold | Silver | Bronze | NoMedal

definition medal_for_rank :: "int \<Rightarrow> medal" where
  "medal_for_rank rank =
     (if rank = 1 then Gold else if rank = 2 then Silver else if rank = 3 then Bronze else NoMedal)"

text \<open>\<^verbatim>\<open>html.escape(s)\<close> of the standard library, with \<^verbatim>\<open>quote=True\<close>.\<close>

definition escape_char :: "char \<Rightarrow> string" where
  "escape_char c =
     (if c = CHR ''&'' then ''&amp;''
      else if c = CHR ''<'' then ''&lt;''
      else if c = CHR ''>'' then ''&gt;''
      else if c = CHR 0x22 then ''&quot;''
      else if c = CHR 0x27 then ''&#x27;''
      else [c])"

definition html_escape :: "string \<Rightarrow> string" where
  "html_escape s = concat (map escape_char s)"

text \<open>
  The rendered text is kept as the sequence of the blocks the source appends to it: the
  title line, one block of five lines per entry of the page, and the "Your Rank" block.
  Each block records the values the source formats into it.
\<close>

datatype segment =
    Title
  | Entry (e_rank: int) (e_medal: medal) (e_highlight: bool) (e_display_name: string)
      (e_user_id: int) (e_games: int) (e_win_percent: number) (e_wins: int) (e_losses: int)
      (e_score: int) (e_penalties: int)
  | YourRank (y_rank: int) (y_name: string) (y_user_id: int) (y_games: int)
      (y_win_percent: number) (y_wins: int) (y_losses: int) (y_score: int) (y_penalties: int)

text \<open>\<^verbatim>\<open>xs[start:stop]\<close>: a negative bound counts from the end, and both are clipped.\<close>

definition py_slice :: "'a list \<Rightarrow> int \<Rightarrow> int \<Rightarrow> 'a list" where
  "py_slice xs start stop =
     (let n = int (length xs);
          lo = (if start < 0 then max 0 (start + n) else min start n);
          hi = (if stop < 0 then max 0 (stop + n) else min stop n)
      in take (nat (hi - lo)) (drop (nat lo) xs))"

text \<open>
  \<^verbatim>\<open>math.ceil(total / per_page)\<close> for a divisor that is not zero. The source divides as
  floats; the quotient of a list length below \<open>2^53\<close> is rounded by less than its distance
  to the next integer, so the ceiling is the exact one.
\<close>

definition ceil_div :: "int \<Rightarrow> int \<Rightarrow> int" where
  "ceil_div a b = - ((- a) div b)"

text \<open>The body of the loop over the page: the block of one entry.\<close>

definition render_entry :: "int \<Rightarrow> int \<Rightarrow> row \<Rightarrow> segment" where
  "render_entry viewer_id i r =
     (let rank = i;
          medal = medal_for_rank rank;
          gp = or_int (games_played r) 0;
          wins' = or_int (wins r) 0;
          losses' = or_int (losses r) 0;
          total_score' = or_int (total_score r) 0;
          penalties' = or_int (penalties r) 0;
          win_percent = (if gp > 0 then Round1 wins' gp else IntV 0);
          display_name = html_escape (or_str (first_name r) (or_str (username r) ''Unknown''));
          highlight = (user_id r = viewer_id)
      in Entry rank medal highlight display_name (user_id r) gp win_percent wins' losses'
           total_score' penalties')"

text \<open>
  \<^verbatim>\<open>for i, row in enumerate(slice, start=i): ...\<close>, threading the text and the flag
  \<^verbatim>\<open>user_in_page\<close>.
\<close>

fun render_rows :: "int \<Rightarrow> int \<Rightarrow> row list \<Rightarrow> segment list \<times> bool \<Rightarrow> segment list \<times> bool" where
  "render_rows viewer_id i [] acc = acc"
| "render_rows viewer_id i (r # rs) (text, user_in_page) =
     render_rows viewer_id (i + 1) rs
       (text @ [render_entry viewer_id i r], user_in_page \<or> user_id r = viewer_id)"

text \<open>
  \<^verbatim>\<open>next((idx for idx, r in enumerate(rows, i) if r['user_id'] == viewer_id), default)\<close>
\<close>

fun first_index :: "int \<Rightarrow> int \<Rightarrow> row list \<Rightarrow> int \<Rightarrow> int" where
  "first_index viewer_id i [] dflt = dflt"
| "first_index viewer_id i (r # rs) dflt =
     (if user_id r = viewer_id then i else first_index viewer_id (i + 1) rs dflt)"

text \<open>
  The block appended when the viewer is not on the page. A row object is truthy (it has
  columns), so \<^verbatim>\<open>if me_row\<close> tests that a row was found.
\<close>

definition your_rank_block :: "row list \<Rightarrow> int \<Rightarrow> int \<Rightarrow> segment" where
  "your_rank_block all_users viewer_id total' =
     (case find (\<lambda>r. user_id r = viewer_id) all_users of
        Some me_row \<Rightarrow>
          (let rank = first_index viewer_id 1 all_users (total' + 1);
               name = or_str (username me_row) (or_str (first_name me_row) ''Unknown'');
               gp = or_int (games_played me_row) 0;
               wins' = or_int (wins me_row) 0
           in YourRank rank (html_escape name) viewer_id gp
                (if gp \<noteq> 0 then Round1 wins' gp else IntV 0)
                wins' (or_int (losses me_row) 0) (or_int (total_score me_row) 0)
                (or_int (penalties me_row) 0))
      | None \<Rightarrow>
          YourRank (total' + 1) (html_escape ''Unknown'') viewer_id 0 (IntV 0) 0 0 0 0)"

text \<open>
  \<^verbatim>\<open>_build_leaderboard_text(all_users, page, per_page, viewer_id)\<close>; the flag \<^verbatim>\<open>daily\<close>
  of the source is never read. The division raises for \<^verbatim>\<open>per_page == 0\<close>.
\<close>

definition build_leaderboard_text ::
  "row list \<Rightarrow> int \<Rightarrow> int \<Rightarrow> int \<Rightarrow> error + (segment list \<times> int \<times> int)" where
  "build_leaderboard_text all_users page per_page viewer_id =
     (if per_page = 0 then Inl ZeroDivisionError
      else
        let total' = int (length all_users);
            total_pages = max 1 (ceil_div total' per_page);
            page' = max 1 (min page total_pages);
            start_idx = (page' - 1) * per_page;
            end_idx = min (start_idx + per_page) total';
            (text, user_in_page) =
               render_rows viewer_id (start_idx + 1) (py_slice all_users start_idx end_idx)
                 ([Title], False);
            text' = (if \<not> user_in_page
                     then text @ [your_rank_block all_users viewer_id total'] else text)
        in Inr (text', total_pages, page'))"

text \<open>Reading a result: its text, and the entry blocks of a text.\<close>

definition text_of :: "error + (segment list \<times> int \<times> int) \<Rightarrow> segment list" where
  "text_of res = (case res of Inl e \<Rightarrow> [] | Inr (text, total_pages, page) \<Rightarrow> text)"

definition entries :: "segment list \<Rightarrow> segment list" where
  "entries text = filter is_Entry text"

definition your_rank_blocks :: "segment list \<Rightarrow> segment list" where
  "your_rank_blocks text = filter is_YourRank text"

section \<open>The store and the rank summary\<close>

text \<open>
  The state the module reads is the outcome of querying the table \<^verbatim>\<open>users\<close>: either an
  exception raised by \<^verbatim>\<open>ensure_columns_exist\<close>, \<^verbatim>\<open>sqlite3.connect\<close>, \<^verbatim>\<open>execute\<close> or
  \<^verbatim>\<open>fetchall\<close>, or the stored rows in table order, with nullable columns.
\<close>

type_synonym store = "error + row list"

text \<open>\<^verbatim>\<open>IFNULL(column, 0)\<close> and \<^verbatim>\<open>IFNULL(column, '')\<close>.\<close>

definition ifnull :: "'a option \<Rightarrow> 'a \<Rightarrow> 'a option" where
  "ifnull x d = (case x of None \<Rightarrow> Some d | Some v \<Rightarrow> Some v)"

text \<open>The select list of the query: every column but \<^verbatim>\<open>user_id\<close> goes through \<^verbatim>\<open>IFNULL\<close>.\<close>

definition select_columns :: "row \<Rightarrow> row" where
  "select_columns r =
     \<lparr>user_id = user_id r,
      username = ifnull (username r) [],
      first_name = ifnull (first_name r) [],
      games_played = ifnull (games_played r) 0,
      wins = ifnull (wins r) 0,
      losses = ifnull (losses r) 0,
      rounds_played = ifnull (rounds_played r) 0,
      eliminations = ifnull (eliminations r) 0,
      total_score = ifnull (total_score r) 0,
      penalties = ifnull (penalties r) 0\<rparr>"

text \<open>
  \<^verbatim>\<open>ORDER BY wins DESC, total_score DESC\<close>. The two names are aliases of result columns,
  so the order is on the values after \<^verbatim>\<open>IFNULL\<close>. Descending order is ascending order
  of the negated key; the pair is compared lexicographically. SQL leaves the order of
  rows with equal keys open: the model keeps them in table order.
\<close>

definition rank_key :: "row \<Rightarrow> int \<times> int" where
  "rank_key r = (- or_int (wins r) 0, - or_int (total_score r) 0)"

text \<open>\<^verbatim>\<open>LIMIT ?\<close>: a negative limit is no limit.\<close>

definition limit_rows :: "int \<Rightarrow> 'a list \<Rightarrow> 'a list" where
  "limit_rows limit xs = (if limit < 0 then xs else take (nat limit) xs)"

text \<open>The body of the \<^verbatim>\<open>try\<close> of \<^verbatim>\<open>get_all_users_sorted(limit)\<close>.\<close>

definition query_users_sorted :: "store \<Rightarrow> int \<Rightarrow> error + row list" where
  "query_users_sorted st limit =
     (case st of
        Inl e \<Rightarrow> Inl e
      | Inr table \<Rightarrow> Inr (limit_rows limit (sort_key rank_key (map select_columns table))))"

text \<open>\<^verbatim>\<open>get_all_users_sorted(limit)\<close>: \<^verbatim>\<open>except Exception: ... return []\<close>.\<close>

definition get_all_users_sorted :: "store \<Rightarrow> int \<Rightarrow> row list" where
  "get_all_users_sorted st limit =
     (case query_users_sorted st limit of Inl e \<Rightarrow> [] | Inr result \<Rightarrow> result)"

text \<open>The dictionary returned by \<^verbatim>\<open>get_user_rank\<close>.\<close>

record rank_summary =
  rs_username :: string
  rs_rank :: int
  rs_total_users :: int
  rs_total_played :: int
  rs_wins :: int
  rs_losses :: int
  rs_win_percent :: number
  rs_rounds_played :: int
  rs_eliminations :: int
  rs_total_score :: int
  rs_penalties :: int

text \<open>The dictionary built for the row found at position \<open>idx\<close>.\<close>

definition summary_of_row :: "row \<Rightarrow> int \<Rightarrow> int \<Rightarrow> rank_summary" where
  "summary_of_row r idx total_users =
     (let gp = or_int (games_played r) 0;
          win_percent = (if gp > 0 then Round1 (or_int (wins r) 0) gp else IntV 0)
      in \<lparr>rs_username = or_str (username r) (or_str (first_name r) ''Unknown''),
          rs_rank = idx,
          rs_total_users = total_users,
          rs_total_played = gp,
          rs_wins = or_int (wins r) 0,
          rs_losses = or_int (losses r) 0,
          rs_win_percent = win_percent,
          rs_rounds_played = or_int (rounds_played r) 0,
          rs_eliminations = or_int (eliminations r) 0,
          rs_total_score = or_int (total_score r) 0,
          rs_penalties = or_int (penalties r) 0\<rparr>)"

text \<open>
  \<^verbatim>\<open>for idx, row in enumerate(all_users, start=idx): if row['user_id'] == user_id: return ...\<close>;
  \<open>None\<close> when the loop ends without returning.
\<close>

fun scan_rank :: "int \<Rightarrow> int \<Rightarrow> int \<Rightarrow> row list \<Rightarrow> rank_summary option" where
  "scan_rank uid total_users idx [] = None"
| "scan_rank uid total_users idx (r # rs) =
     (if user_id r = uid then Some (summary_of_row r idx total_users)
      else scan_rank uid total_users (idx + 1) rs)"

text \<open>The dictionary after the loop (\<^verbatim>\<open># Not in list\<close>).\<close>

definition not_in_list :: "int \<Rightarrow> rank_summary" where
  "not_in_list total_users =
     \<lparr>rs_username = ''Unknown'', rs_rank = total_users + 1, rs_total_users = total_users,
      rs_total_played = 0, rs_wins = 0, rs_losses = 0, rs_win_percent = IntV 0,
      rs_rounds_played = 0, rs_eliminations = 0, rs_total_score = 0, rs_penalties = 0\<rparr>"

text \<open>The dictionary of the \<^verbatim>\<open>except\<close> branch.\<close>

definition summary_on_error :: rank_summary where
  "summary_on_error =
     \<lparr>rs_username = ''Unknown'', rs_rank = 1, rs_total_users = 0,
      rs_total_played = 0, rs_wins = 0, rs_losses = 0, rs_win_percent = IntV 0,
      rs_rounds_played = 0, rs_eliminations = 0, rs_total_score = 0, rs_penalties = 0\<rparr>"

text \<open>
  The body of the \<^verbatim>\<open>try\<close> of \<^verbatim>\<open>get_user_rank(user_id)\<close>. The ordering is fetched with the
  default limit 100. No statement of the body raises on rows of this shape: the division
  is guarded by \<^verbatim>\<open>gp > 0\<close>.
\<close>

definition get_user_rank_body :: "store \<Rightarrow> int \<Rightarrow> error + rank_summary" where
  "get_user_rank_body st uid =
     (let all_users = get_all_users_sorted st 100
      in case scan_rank uid (int (length all_users)) 1 all_users of
           Some found \<Rightarrow> Inr found
         | None \<Rightarrow> Inr (not_in_list (int (length all_users))))"

definition get_user_rank :: "store \<Rightarrow> int \<Rightarrow> rank_summary" where
  "get_user_rank st uid =
     (case get_user_rank_body st uid of Inl e \<Rightarrow> summary_on_error | Inr s \<Rightarrow> s)"

text \<open>Three concrete rows, used to evaluate the functions on an input.\<close>

definition sample_row :: "int \<Rightarrow> string \<Rightarrow> string \<Rightarrow> int \<Rightarrow> int \<Rightarrow> int \<Rightarrow> row" where
  "sample_row uid uname fname gp w sc =
     \<lparr>user_id = uid, username = Some uname, first_name = Some fname, games_played = Some gp,
      wins = Some w, losses = Some (gp - w), rounds_played = Some 0, eliminations = Some 0,
      total_score = Some sc, penalties = Some 0\<rparr>"

definition sample_users :: "row list" where
  "sample_users = [sample_row 11 ''ann'' ''Ann'' 4 3 30, sample_row 12 ''bob'' '''' 4 2 25,
                   sample_row 13 '''' '''' 0 0 0]"

text \<open>A table of 101 rows with equal wins and strictly decreasing scores.\<close>

definition big_table :: "row list" where
  "big_table = map (\<lambda>i. sample_row (int i) ''u'' ''U'' 1 1 (200 - int i)) [1..<102]"

section \<open>The daily rank of the user-info view\<close>

text \<open>
  \<^verbatim>\<open>sorted(daily_users, key=lambda x: x['total_score'], reverse=True)\<close>: a stable sort,
  descending by the key (ties keep their order, also with \<^verbatim>\<open>reverse=True\<close>). Sorting two
  or more rows compares every key at least once, and a comparison with \<^verbatim>\<open>None\<close> raises
  \<^verbatim>\<open>TypeError\<close>; a single row is never compared.
\<close>

definition sorted_by_score_desc :: "row list \<Rightarrow> error + row list" where
  "sorted_by_score_desc xs =
     (if 2 \<le> length xs \<and> (\<exists>r \<in> set xs. total_score r = None) then Inl TypeError
      else Inr (sort_key (\<lambda>r. - or_int (total_score r) 0) xs))"

text \<open>\<^verbatim>\<open>xs.index(x)\<close>: the first position holding a value equal to \<open>x\<close>.\<close>

fun py_index :: "'a list \<Rightarrow> 'a \<Rightarrow> error + int" where
  "py_index [] x = Inl ValueError"
| "py_index (y # ys) x =
     (if y = x then Inr 0
      else case py_index ys x of Inl e \<Rightarrow> Inl e | Inr i \<Rightarrow> Inr (i + 1))"

text \<open>The values the daily branch of \<^verbatim>\<open>userinfo_callback\<close> formats into its text.\<close>

record daily_stats =
  ds_rank :: int
  ds_games :: "int option"
  ds_wins :: "int option"
  ds_losses :: "int option"
  ds_score :: "int option"
  ds_pen :: "int option"
  ds_win_pct :: number

text \<open>
  \<^verbatim>\<open>round(wins/games*100,1) if games else 0\<close> on the raw columns: the division raises
  \<^verbatim>\<open>TypeError\<close> when \<^verbatim>\<open>wins\<close> is \<^verbatim>\<open>None\<close>.
\<close>

definition daily_win_pct :: "int option \<Rightarrow> int option \<Rightarrow> error + number" where
  "daily_win_pct wins' games =
     (case games of
        None \<Rightarrow> Inr (IntV 0)
      | Some g \<Rightarrow>
          if g = 0 then Inr (IntV 0)
          else (case wins' of None \<Rightarrow> Inl TypeError | Some w \<Rightarrow> Inr (Round1 w g)))"

text \<open>
  The branch \<^verbatim>\<open>view_type == "daily"\<close> of \<^verbatim>\<open>userinfo_callback\<close>, from the daily snapshot
  returned by \<^verbatim>\<open>get_daily_leaderboard()\<close> and the user identifier parsed from the token.
  Nothing catches an exception here.
\<close>

definition userinfo_daily :: "row list \<Rightarrow> int \<Rightarrow> error + daily_stats" where
  "userinfo_daily daily_users uid =
     (case sorted_by_score_desc daily_users of
        Inl e \<Rightarrow> Inl e
      | Inr daily_users_sorted \<Rightarrow>
          (case find (\<lambda>r. user_id r = uid) daily_users_sorted of
             Some row \<Rightarrow>
               (case daily_win_pct (wins row) (games_played row) of
                  Inl e \<Rightarrow> Inl e
                | Inr win_pct \<Rightarrow>
                    (case py_index daily_users_sorted row of
                       Inl e \<Rightarrow> Inl e
                     | Inr i \<Rightarrow>
                         Inr \<lparr>ds_rank = i + 1, ds_games = games_played row, ds_wins = wins row,
                              ds_losses = losses row, ds_score = total_score row,
                              ds_pen = penalties row, ds_win_pct = win_pct\<rparr>))
           | None \<Rightarrow>
               Inr \<lparr>ds_rank = 0, ds_games = Some 0, ds_wins = Some 0, ds_losses = Some 0,
                    ds_score = Some 0, ds_pen = Some 0, ds_win_pct = IntV 0\<rparr>))"

text \<open>
  The rule of the claim, for comparison: the 1-based position of the user in the snapshot
  sorted by wins descending, then score descending (0 when the user has no row).
\<close>

definition position_by_wins_then_score :: "row list \<Rightarrow> int \<Rightarrow> int" where
  "position_by_wins_then_score daily_users uid =
     first_index uid 1 (sort_key rank_key daily_users) 0"

text \<open>Two daily rows on which the two rules disagree.\<close>

definition daily_example :: "row list" where
  "daily_example = [sample_row 1 ''ann'' ''Ann'' 3 2 10, sample_row 2 ''bob'' ''Bob'' 3 1 20]"

section \<open>Display names\<close>

text \<open>
  The chain of the claim, for comparison: \<open>first_name\<close> if it is present and not empty,
  otherwise \<open>username\<close> if it is present and not empty, otherwise "Unknown".
\<close>

definition blank :: "string option \<Rightarrow> bool" where
  "blank x = (case x of None \<Rightarrow> True | Some s \<Rightarrow> s = [])"

definition chain_first_name_username :: "row \<Rightarrow> string" where
  "chain_first_name_username r =
     (if \<not> blank (first_name r) then (case first_name r of Some f \<Rightarrow> f | None \<Rightarrow> [])
      else if \<not> blank (username r) then (case username r of Some u \<Rightarrow> u | None \<Rightarrow> [])
      else ''Unknown'')"

section \<open>The page-action handlers\<close>

text \<open>
  The token of a button press, \<^verbatim>\<open>query.data\<close>, is a Python \<^verbatim>\<open>str\<close> of arbitrary Unicode
  text. It is modelled as the list of its code points; \<open>code_points\<close> reads a string of
  the source (a literal, or the \<^verbatim>\<open>callback_data\<close> of a button) as such a list.
\<close>

type_synonym ustring = "nat list"

definition code_points :: "string \<Rightarrow> ustring" where
  "code_points s = map of_char s"

text \<open>
  \<^verbatim>\<open>str.isspace\<close> of one character, which is what \<^verbatim>\<open>str.strip()\<close> removes at both ends:
  the code points 9 to 13, 28 to 32, U+0085, U+00A0, U+1680, U+2000 to U+200A, U+2028,
  U+2029, U+202F, U+205F and U+3000.
\<close>

definition is_space :: "nat \<Rightarrow> bool" where
  "is_space c =
     (c \<in> set [9, 10, 11, 12, 13, 28, 29, 30, 31, 32, 133, 160, 5760] \<or>
      (8192 \<le> c \<and> c \<le> 8202) \<or>
      c \<in> set [8232, 8233, 8239, 8287, 12288])"

definition py_strip :: "ustring \<Rightarrow> ustring" where
  "py_strip s = rev (dropWhile is_space (rev (dropWhile is_space s)))"

definition startswith :: "ustring \<Rightarrow> ustring \<Rightarrow> bool" where
  "startswith s p = (take (length p) s = p)"

text \<open>\<^verbatim>\<open>s.split(sep, maxsplit)\<close> for a separator of one character.\<close>

fun py_split :: "nat \<Rightarrow> nat \<Rightarrow> ustring \<Rightarrow> ustring list" where
  "py_split sep 0 s = [s]"
| "py_split sep (Suc n) s =
     (case dropWhile (\<lambda>c. c \<noteq> sep) s of
        [] \<Rightarrow> [s]
      | c # rest \<Rightarrow> takeWhile (\<lambda>c. c \<noteq> sep) s # py_split sep n rest)"

text \<open>\<^verbatim>\<open>xs[i]\<close> for an index that is not negative.\<close>

definition item :: "'a list \<Rightarrow> nat \<Rightarrow> error + 'a" where
  "item xs i = (if i < length xs then Inr (xs ! i) else Inl IndexError)"

text \<open>
  \<^verbatim>\<open>int(s)\<close> on a string. The decimal digits of Unicode (category \<^verbatim>\<open>Nd\<close>) come in runs
  of ten consecutive code points with the values 0 to 9; \<open>decimal_runs\<close> lists the first
  code point of each run (Unicode 14.0, the table of CPython 3.11), beginning with the
  ASCII digits.
\<close>

definition decimal_runs :: "nat list" where
  "decimal_runs =
     [48, 1632, 1776, 1984, 2406, 2534, 2662, 2790, 2918, 3046, 3174, 3302, 3430, 3558,
      3664, 3792, 3872, 4160, 4240, 6112, 6160, 6470, 6608, 6784, 6800, 6992, 7088, 7232,
      7248, 42528, 43216, 43264, 43472, 43504, 43600, 44016, 65296, 66720, 68912, 69734,
      69872, 69942, 70096, 70384, 70736, 70864, 71248, 71360, 71472, 71904, 72016, 72784,
      73040, 73120, 92768, 92864, 93008, 120782, 120792, 120802, 120812, 120822, 123200,
      123632, 125264, 130032]"

definition to_decimal :: "nat \<Rightarrow> nat option" where
  "to_decimal c =
     (case find (\<lambda>s. s \<le> c \<and> c < s + 10) decimal_runs of
        None \<Rightarrow> None
      | Some s \<Rightarrow> Some (c - s))"

text \<open>
  \<^verbatim>\<open>int\<close> first maps every white-space character from code point 127 on to a blank and
  every decimal digit to its ASCII digit, leaving the code points below 127 as they are;
  then it skips the ASCII white space 9 to 13 and 32 at both ends. So the white space
  that \<^verbatim>\<open>int\<close> skips is the following (28 to 31 are not part of it).
\<close>

definition is_int_space :: "nat \<Rightarrow> bool" where
  "is_int_space c = (if c < 127 then c \<in> set [9, 10, 11, 12, 13, 32] else is_space c)"

text \<open>
  The digits of the literal: decimal digits, where single underscores (code point 95) may
  stand between digits.
\<close>

fun digits :: "nat \<Rightarrow> bool \<Rightarrow> ustring \<Rightarrow> nat option" where
  "digits acc after_digit [] = (if after_digit then Some acc else None)"
| "digits acc after_digit (c # cs) =
     (case to_decimal c of
        Some d \<Rightarrow> digits (10 * acc + d) True cs
      | None \<Rightarrow> if c = 95 \<and> after_digit then digits acc False cs else None)"

text \<open>
  \<^verbatim>\<open>int(s)\<close>: white space at both ends is skipped, then an optional sign (45 is the minus
  sign, 43 the plus sign), then the digits. Anything else raises \<^verbatim>\<open>ValueError\<close>. (The
  limit \<^verbatim>\<open>sys.int_max_str_digits\<close> of 4300 digits is not modelled; a callback token has at
  most 64 bytes.)
\<close>

definition py_int :: "ustring \<Rightarrow> error + int" where
  "py_int s =
     (let t = rev (dropWhile is_int_space (rev (dropWhile is_int_space s)));
          (negative, body) =
             (case t of
                c # cs \<Rightarrow>
                  if c = 45 then (True, cs)
                  else if c = 43 then (False, cs)
                  else (False, t)
              | [] \<Rightarrow> (False, t))
      in case digits 0 False body of
           None \<Rightarrow> Inl ValueError
         | Some n \<Rightarrow> Inr (if negative then - int n else int n))"

text \<open>
  What a handler does with a button press: it only acknowledges the press
  (\<^verbatim>\<open>query.answer()\<close>), or it edits the message to a page and its pager, or an exception
  leaves it.
\<close>

datatype outcome = Ignored | Edited "segment list" "keyboard option" | Raised error

definition PER_PAGE :: int where
  "PER_PAGE = 5"

text \<open>\<^verbatim>\<open>except (IndexError, ValueError): await query.answer()\<close>\<close>

definition caught :: "error \<Rightarrow> outcome" where
  "caught e = (if e = IndexError \<or> e = ValueError then Ignored else Raised e)"

text \<open>
  \<^verbatim>\<open>_edit_leaderboard_page\<close> and \<^verbatim>\<open>_edit_daily_leaderboard_page\<close>, up to the edit; the
  delivery and its failures belong to the transport.
\<close>

definition edit_page :: "row list \<Rightarrow> string \<Rightarrow> int \<Rightarrow> int \<Rightarrow> outcome" where
  "edit_page all_users prefix viewer_id page =
     (case build_leaderboard_text all_users page PER_PAGE viewer_id of
        Inl e \<Rightarrow> Raised e
      | Inr (text, total_pages, page') \<Rightarrow> Edited text (build_pager_old page' total_pages prefix))"

definition edit_leaderboard_page :: "store \<Rightarrow> int \<Rightarrow> int \<Rightarrow> outcome" where
  "edit_leaderboard_page st viewer_id page =
     edit_page (get_all_users_sorted st 100) ''leaderboard'' viewer_id page"

definition edit_daily_leaderboard_page :: "row list \<Rightarrow> int \<Rightarrow> int \<Rightarrow> outcome" where
  "edit_daily_leaderboard_page daily_users viewer_id page =
     edit_page daily_users ''daily_leaderboard'' viewer_id page"

text \<open>
  \<^verbatim>\<open>leaderboard_callback\<close>: \<^verbatim>\<open>data = (query.data or "").strip()\<close>, the prefix test, then
  \<^verbatim>\<open>int(data.split("_", 1)[1])\<close> inside the \<^verbatim>\<open>try\<close>. The underscore is code point 95.
\<close>

definition leaderboard_callback :: "store \<Rightarrow> int \<Rightarrow> ustring option \<Rightarrow> outcome" where
  "leaderboard_callback st viewer_id query_data =
     (let data = py_strip (case query_data of None \<Rightarrow> [] | Some d \<Rightarrow> d)
      in if \<not> startswith data (code_points ''leaderboard_'') then Ignored
         else case item (py_split 95 1 data) 1 of
                Inl e \<Rightarrow> caught e
              | Inr s \<Rightarrow>
                  (case py_int s of
                     Inl e \<Rightarrow> caught e
                   | Inr page \<Rightarrow>
                       (case edit_leaderboard_page st viewer_id page of
                          Raised e \<Rightarrow> caught e
                        | done \<Rightarrow> done)))"

text \<open>
  \<^verbatim>\<open>daily_leaderboard_callback\<close>: the same with the prefix \<^verbatim>\<open>daily_leaderboard_\<close> and
  \<^verbatim>\<open>int(data.split("_", 2)[2])\<close>; the daily snapshot comes from
  \<^verbatim>\<open>get_daily_leaderboard()\<close>.
\<close>

definition daily_leaderboard_callback :: "row list \<Rightarrow> int \<Rightarrow> ustring option \<Rightarrow> outcome" where
  "daily_leaderboard_callback daily_users viewer_id query_data =
     (let data = py_strip (case query_data of None \<Rightarrow> [] | Some d \<Rightarrow> d)
      in if \<not> startswith data (code_points ''daily_leaderboard_'') then Ignored
         else case item (py_split 95 2 data) 2 of
                Inl e \<Rightarrow> caught e
              | Inr s \<Rightarrow>
                  (case py_int s of
                     Inl e \<Rightarrow> caught e
                   | Inr page \<Rightarrow>
                       (case edit_daily_leaderboard_page daily_users viewer_id page of
                          Raised e \<Rightarrow> caught e
                        | done \<Rightarrow> done)))"

text \<open>The digits that \<^verbatim>\<open>str\<close> writes: the ASCII digits, code points 48 to 57.\<close>

definition ascii_digit :: "nat \<Rightarrow> bool" where
  "ascii_digit c = (48 \<le> c \<and> c \<le> 57)"

text \<open>
  The grammar of the claim, for comparison: a token is the prefix, an underscore, and the
  decimal numeral of an integer as \<^verbatim>\<open>str\<close> writes it (a minus sign for a negative number,
  no other sign, no white space, no leading zero).
\<close>

definition is_numeral :: "ustring \<Rightarrow> bool" where
  "is_numeral s =
     (case py_int s of Inl e \<Rightarrow> False | Inr n \<Rightarrow> s = code_points (py_str n))"

definition matches_grammar :: "string \<Rightarrow> ustring \<Rightarrow> bool" where
  "matches_grammar prefix token =
     (take (length prefix + 1) token = code_points (prefix @ ''_'') \<and>
      is_numeral (drop (length prefix + 1) token))"

text \<open>
  The tokens either handler acts on: the prefix, an underscore, and any text that \<^verbatim>\<open>int\<close>
  reads as an integer.
\<close>

definition accepted :: "string \<Rightarrow> ustring \<Rightarrow> bool" where
  "accepted prefix token =
     (take (length prefix + 1) token = code_points (prefix @ ''_'') \<and>
      (case py_int (drop (length prefix + 1) token) of Inl e \<Rightarrow> False | Inr n \<Rightarrow> True))"

section \<open>Properties of the pager\<close>

text \<open>
  C4, as stated, fails: the pager is also absent for \<open>total_pages = 0\<close>, which is not
  \<open>1\<close>. The guard of the source is \<^verbatim>\<open>total_pages <= 1\<close>.
\<close>

theorem build_pager_old_absent_at_zero:
  "build_pager_old 1 0 ''leaderboard'' = None \<and> (0::int) \<noteq> 1"
  by (simp add: build_pager_old_def)

text \<open>
  C4 (amended): for all integers \<open>page\<close> and \<open>total_pages\<close> the pager is absent exactly when
  \<open>total_pages \<le> 1\<close>. Otherwise it consists of exactly two rows: a navigation row and an
  indicator row. The navigation row holds only "previous" and "next" controls, at most one
  of each; a "previous" control is there if and only if \<open>page > 1\<close> and carries the token
  \<open>prefix_(page-1)\<close>; a "next" control is there if and only if \<open>page < total_pages\<close> and
  carries the token \<open>prefix_(page+1)\<close>. The indicator row is the single button
  "Page page/total_pages" whose token \<open>prefix:nop\<close> is not a page action.
\<close>

theorem build_pager_old_spec:
  "(build_pager_old page total_pages prefix = None \<longleftrightarrow> total_pages \<le> 1) \<and>
   (1 < total_pages \<longrightarrow>
      (\<exists>nav_row.
         build_pager_old page total_pages prefix =
           Some [nav_row,
                 [\<lparr>caption = PlainCaption (''Page '' @ py_str page @ ''/'' @ py_str total_pages),
                   callback_data = prefix @ '':nop''\<rparr>]] \<and>
         (\<forall>b \<in> set nav_row. caption b = PreviousCaption \<or> caption b = NextCaption) \<and>
         distinct (map caption nav_row) \<and>
         ((\<exists>b \<in> set nav_row. caption b = PreviousCaption) \<longleftrightarrow> 1 < page) \<and>
         ((\<exists>b \<in> set nav_row. caption b = NextCaption) \<longleftrightarrow> page < total_pages) \<and>
         (\<forall>b \<in> set nav_row. caption b = PreviousCaption \<longrightarrow>
              callback_data b = prefix @ ''_'' @ py_str (page - 1)) \<and>
         (\<forall>b \<in> set nav_row. caption b = NextCaption \<longrightarrow>
              callback_data b = prefix @ ''_'' @ py_str (page + 1))))"
  by (auto simp: build_pager_old_def Let_def)

theorem build_pager_old_spec_witness:
  "(1::int) < 2 \<and>
   (\<exists>nav_row.
      build_pager_old 2 2 ''leaderboard'' =
        Some [nav_row,
              [\<lparr>caption = PlainCaption ''Page 2/2'', callback_data = ''leaderboard:nop''\<rparr>]] \<and>
      (\<exists>b \<in> set nav_row. caption b = PreviousCaption) \<and>
      \<not> (\<exists>b \<in> set nav_row. caption b = NextCaption) \<and>
      (\<forall>b \<in> set nav_row. caption b = PreviousCaption \<longrightarrow>
           callback_data b = ''leaderboard_1''))"
  using build_pager_old_spec [of 2 2 "''leaderboard''"]
  by (simp add: py_str_def str_nat.simps digit_char_def) blast

section \<open>The page renderer unfolded\<close>

lemma render_rows_eq:
  "render_rows v i rs (t, f) =
     (t @ map (\<lambda>k. render_entry v (i + int k) (rs ! k)) [0..<length rs],
      f \<or> (\<exists>r \<in> set rs. user_id r = v))"
proof (induction rs arbitrary: i t f)
  case Nil
  show ?case by simp
next
  case (Cons r rs)
  have shift: "map (\<lambda>k. render_entry v (i + int k) ((r # rs) ! k)) [0..<length (r # rs)] =
        render_entry v i r # map (\<lambda>k. render_entry v (i + 1 + int k) (rs ! k)) [0..<length rs]"
    by (simp add: map_upt_Suc add.assoc del: upt_Suc)
  show ?case
    unfolding render_rows.simps Cons.IH shift by auto
qed

lemma ceil_div_upper: "0 < b \<Longrightarrow> a \<le> ceil_div a b * b"
proof -
  assume b: "0 < b"
  have "(- a) div b * b \<le> - a"
    using b by (metis div_mult_mod_eq le_add_same_cancel1 pos_mod_sign)
  then show ?thesis by (simp add: ceil_div_def)
qed

lemma ceil_div_lower: "0 < b \<Longrightarrow> (ceil_div a b - 1) * b < a"
proof -
  assume b: "0 < b"
  have "- a < ((- a) div b + 1) * b"
    using b by (metis distrib_right minus_mod_eq_div_mult mult_1 pos_mod_bound add_less_cancel_left diff_add_cancel)
  then show ?thesis by (simp add: ceil_div_def algebra_simps)
qed

lemma ceil_div_ceiling: "ceil_div a b = \<lceil>real_of_int a / real_of_int b\<rceil>"
  by (simp add: ceil_div_def ceiling_divide_eq_div)

lemma page_start_le:
  assumes "1 \<le> pp" "1 \<le> p" "p \<le> max 1 (ceil_div n pp)" "0 \<le> n"
  shows "0 \<le> (p - 1) * pp" "(p - 1) * pp \<le> n" "0 < n \<Longrightarrow> (p - 1) * pp < n"
proof -
  show "0 \<le> (p - 1) * pp" using assms by simp
  have a: "(p - 1) * pp \<le> (max 1 (ceil_div n pp) - 1) * pp"
    using assms by (intro mult_right_mono) auto
  have b: "(max 1 (ceil_div n pp) - 1) * pp \<le> n" "0 < n \<Longrightarrow> (max 1 (ceil_div n pp) - 1) * pp < n"
    using ceil_div_lower [of pp n] assms by (auto simp: max_def)
  show "(p - 1) * pp \<le> n" "0 < n \<Longrightarrow> (p - 1) * pp < n" using a b by auto
qed

lemma build_unfold:
  fixes us :: "row list" and pp page v :: int
  assumes pp: "1 \<le> pp"
  defines "n \<equiv> int (length us)"
  defines "tp \<equiv> max 1 (ceil_div n pp)"
  defines "p \<equiv> max 1 (min page tp)"
  defines "start \<equiv> nat ((p - 1) * pp)"
  defines "cnt \<equiv> nat (min pp (n - (p - 1) * pp))"
  shows "build_leaderboard_text us page pp v =
     Inr ([Title] @ map (\<lambda>k. render_entry v (int (start + k) + 1) (us ! (start + k))) [0..<cnt]
            @ (if \<exists>k<cnt. user_id (us ! (start + k)) = v then []
               else [your_rank_block us v n]),
          tp, p)"
proof -
  have p: "1 \<le> p" "p \<le> tp" by (auto simp: p_def tp_def)
  have n0: "0 \<le> n" by (simp add: n_def)
  note st = page_start_le [OF pp p(1) p(2)[unfolded tp_def] n0]
  have sl: "py_slice us ((p - 1) * pp) (min ((p - 1) * pp + pp) n) = take cnt (drop start us)"
    using st pp n0 unfolding py_slice_def Let_def cnt_def start_def n_def [symmetric]
    by (auto simp: min_def)
  have len: "length (take cnt (drop start us)) = cnt"
    using st pp n0 unfolding cnt_def start_def n_def by auto
  have nth: "\<And>k. k < cnt \<Longrightarrow> take cnt (drop start us) ! k = us ! (start + k)"
    using len by (simp add: )
  have ex: "(\<exists>r \<in> set (take cnt (drop start us)). user_id r = v) \<longleftrightarrow> (\<exists>k<cnt. user_id (us ! (start + k)) = v)"
    using len nth by (metis in_set_conv_nth)
  have m: "map (\<lambda>k. render_entry v ((p - 1) * pp + 1 + int k) (take cnt (drop start us) ! k)) [0..<cnt]
         = map (\<lambda>k. render_entry v (int (start + k) + 1) (us ! (start + k))) [0..<cnt]"
    using st nth by (auto simp: start_def add.commute add.left_commute)
  show ?thesis
    using pp unfolding build_leaderboard_text_def Let_def n_def [symmetric] tp_def [symmetric] p_def [symmetric]
      sl render_rows_eq len ex m
    by (auto simp: )
qed


lemma is_Entry_render_entry [simp]: "is_Entry (render_entry v i r)"
  by (simp add: render_entry_def Let_def)

lemma e_rank_render_entry [simp]: "e_rank (render_entry v i r) = i"
  by (simp add: render_entry_def Let_def)

lemma e_user_id_render_entry [simp]: "e_user_id (render_entry v i r) = user_id r"
  by (simp add: render_entry_def Let_def)

lemma entries_page:
  "entries ([Title] @ map (\<lambda>k. render_entry v (f k) (g k)) ks @
            (if b then [] else [your_rank_block us v n])) =
   map (\<lambda>k. render_entry v (f k) (g k)) ks"
proof -
  have "filter is_Entry (map (\<lambda>k. render_entry v (f k) (g k)) ks) =
        map (\<lambda>k. render_entry v (f k) (g k)) ks"
    by (induction ks) auto
  moreover have "\<not> is_Entry (your_rank_block us v n)"
    by (simp add: your_rank_block_def Let_def split: option.split)
  ultimately show ?thesis by (simp add: entries_def)
qed

lemma page_ranks:
  assumes "0 \<le> s" "0 \<le> c"
  shows "map (\<lambda>k. int (nat s + k) + 1) [0..<nat c] = [s + 1 .. s + c]"
proof (rule nth_equalityI)
  show "length (map (\<lambda>k. int (nat s + k) + 1) [0..<nat c]) = length [s + 1 .. s + c]"
    using assms by simp
next
  fix i assume "i < length (map (\<lambda>k. int (nat s + k) + 1) [0..<nat c])"
  then have i: "i < nat c" by simp
  then have "[s + 1 .. s + c] ! i = s + 1 + int i" by (intro nth_upto) linarith
  with i assms show "map (\<lambda>k. int (nat s + k) + 1) [0..<nat c] ! i = [s + 1 .. s + c] ! i"
    by simp
qed

lemma pages_concat:
  assumes pp: "1 \<le> pp" and n: "0 \<le> n" and k: "0 \<le> k"
  shows "concat (map (\<lambda>p. [(p - 1) * pp + 1 .. min (p * pp) n]) [1..k]) = [1 .. min (k * pp) n]"
  using k
proof (induction k rule: int_ge_induct)
  case base
  show ?case using n by simp
next
  case (step k)
  have up: "[1..k + 1] = [1..k] @ [k + 1]"
    using step.hyps upto_rec2 [of 1 "k + 1"] by simp
  have le: "k * pp \<le> (k + 1) * pp" using pp step.hyps by (simp add: algebra_simps)
  show ?case
  proof (cases "k * pp < n")
    case True
    then have m: "min (k * pp) n = k * pp" by simp
    have "[1 .. min ((k + 1) * pp) n] = [1 .. k * pp] @ [k * pp + 1 .. min ((k + 1) * pp) n]"
    proof (cases "k = 0")
      case True then show ?thesis by simp
    next
      case False
      then have "1 \<le> k * pp" using step.hyps pp
        by (metis add_0 less_le mult_le_cancel_left1 mult.commute order_trans zless_imp_add1_zle mult_pos_pos zero_less_one_class.zero_less_one less_le_trans)
      moreover have "k * pp \<le> min ((k + 1) * pp) n" using True le by simp
      ultimately show ?thesis by (rule upto_split2)
    qed
    then show ?thesis using step.IH m by (simp add: up)
  next
    case False
    then have "min (k * pp) n = n" "min ((k + 1) * pp) n = n" using le by auto
    moreover have "[k * pp + 1 .. n] = []" using False by simp
    ultimately show ?thesis using step.IH by (simp add: up)
  qed
qed

lemma page_entries:
  fixes us :: "row list" and pp p v :: int
  assumes pp: "1 \<le> pp" and p: "1 \<le> p" "p \<le> max 1 (ceil_div (int (length us)) pp)"
  shows "build_leaderboard_text us p pp v \<noteq> Inl e"
    and "entries (text_of (build_leaderboard_text us p pp v)) =
         map (\<lambda>k. render_entry v (int (nat ((p - 1) * pp) + k) + 1) (us ! (nat ((p - 1) * pp) + k)))
           [0..<nat (min pp (int (length us) - (p - 1) * pp))]"
    and "snd (snd (projr (build_leaderboard_text us p pp v))) = p"
proof -
  have c: "max 1 (min p (max 1 (ceil_div (int (length us)) pp))) = p" using p by simp
  show "build_leaderboard_text us p pp v \<noteq> Inl e"
    by (simp add: build_unfold [OF pp])
  show "entries (text_of (build_leaderboard_text us p pp v)) =
         map (\<lambda>k. render_entry v (int (nat ((p - 1) * pp) + k) + 1) (us ! (nat ((p - 1) * pp) + k)))
           [0..<nat (min pp (int (length us) - (p - 1) * pp))]"
    unfolding build_unfold [OF pp] c text_of_def sum.case prod.case by (rule entries_page)
  show "snd (snd (projr (build_leaderboard_text us p pp v))) = p"
    unfolding build_unfold [OF pp] c by simp
qed

lemma page_rank_list:
  fixes us :: "row list" and pp p v :: int
  assumes pp: "1 \<le> pp" and p: "1 \<le> p" "p \<le> max 1 (ceil_div (int (length us)) pp)"
  shows "map e_rank (entries (text_of (build_leaderboard_text us p pp v))) =
         [(p - 1) * pp + 1 .. min (p * pp) (int (length us))]"
proof -
  note st = page_start_le [OF pp p, of ] 
  have s: "0 \<le> (p - 1) * pp" and le: "(p - 1) * pp \<le> int (length us)"
    using page_start_le [OF pp p] by simp_all
  have c: "0 \<le> min pp (int (length us) - (p - 1) * pp)" using pp le by simp
  have e: "(p - 1) * pp + min pp (int (length us) - (p - 1) * pp) = min (p * pp) (int (length us))"
    by (simp add: min_def algebra_simps)
  show ?thesis
    unfolding page_entries(2) [OF pp p] map_map comp_def e_rank_render_entry
    using page_ranks [OF s c] e by simp
qed

lemma build_clamped:
  assumes "1 \<le> pp"
  shows "build_leaderboard_text us page pp v =
         build_leaderboard_text us (max 1 (min page (max 1 (ceil_div (int (length us)) pp)))) pp v"
  using assms by (simp add: build_leaderboard_text_def Let_def)


section \<open>Pagination\<close>

text \<open>
  C1: for every ordering and every \<open>per_page \<ge> 1\<close>, the renderer returns
  \<open>total_pages = max 1 \<lceil>total_users / per_page\<rceil>\<close>; for every page in \<open>[1, total_pages]\<close>
  the rendered entries are exactly \<open>min per_page (total_users - (page-1)*per_page)\<close>
  many, their displayed ranks are the consecutive absolute positions
  \<open>(page-1)*per_page + 1, \<dots>, min (page*per_page) total_users\<close>, each entry renders the row at
  its rank in the full ordering, and the ranks of the pages \<open>1..total_pages\<close> in order are
  \<open>1..total_users\<close>: no gap, no overlap.
\<close>

theorem render_page_partition:
  fixes all_users :: "row list" and per_page viewer_id :: int
  assumes "1 \<le> per_page"
  shows
    "(\<forall>page. \<exists>text clamped_page.
        build_leaderboard_text all_users page per_page viewer_id =
          Inr (text, max 1 \<lceil>real (length all_users) / real_of_int per_page\<rceil>, clamped_page)) \<and>
     (\<forall>page \<in> {1 .. max 1 \<lceil>real (length all_users) / real_of_int per_page\<rceil>}.
        length (entries (text_of (build_leaderboard_text all_users page per_page viewer_id))) =
          nat (min per_page (int (length all_users) - (page - 1) * per_page)) \<and>
        map e_rank (entries (text_of (build_leaderboard_text all_users page per_page viewer_id))) =
          [(page - 1) * per_page + 1 .. min (page * per_page) (int (length all_users))] \<and>
        (\<forall>e \<in> set (entries (text_of (build_leaderboard_text all_users page per_page viewer_id))).
           e = render_entry viewer_id (e_rank e) (all_users ! nat (e_rank e - 1)))) \<and>
     concat (map (\<lambda>page. map e_rank
                (entries (text_of (build_leaderboard_text all_users page per_page viewer_id))))
             [1 .. max 1 \<lceil>real (length all_users) / real_of_int per_page\<rceil>]) =
       [1 .. int (length all_users)]"
proof -
  let ?n = "int (length all_users)"
  let ?tp = "max 1 (ceil_div ?n per_page)"
  have tp: "max 1 \<lceil>real (length all_users) / real_of_int per_page\<rceil> = ?tp"
    using ceil_div_ceiling [of ?n per_page] by simp
  have A: "\<exists>text clamped_page.
        build_leaderboard_text all_users page per_page viewer_id = Inr (text, ?tp, clamped_page)"
    for page
    by (simp add: build_unfold [OF assms])
  have B: "length (entries (text_of (build_leaderboard_text all_users page per_page viewer_id))) =
          nat (min per_page (?n - (page - 1) * per_page)) \<and>
        map e_rank (entries (text_of (build_leaderboard_text all_users page per_page viewer_id))) =
          [(page - 1) * per_page + 1 .. min (page * per_page) ?n] \<and>
        (\<forall>e \<in> set (entries (text_of (build_leaderboard_text all_users page per_page viewer_id))).
           e = render_entry viewer_id (e_rank e) (all_users ! nat (e_rank e - 1)))"
    if "page \<in> {1 .. ?tp}" for page
  proof -
    from that have p: "1 \<le> page" "page \<le> ?tp" by simp_all
    note pe = page_entries(2) [OF assms p, of viewer_id]
    have 1: "length (entries (text_of (build_leaderboard_text all_users page per_page viewer_id))) =
          nat (min per_page (?n - (page - 1) * per_page))"
      unfolding pe by simp
    have 3: "e = render_entry viewer_id (e_rank e) (all_users ! nat (e_rank e - 1))"
      if "e \<in> set (entries (text_of (build_leaderboard_text all_users page per_page viewer_id)))" for e
    proof -
      from that [unfolded pe] obtain k where
        "e = render_entry viewer_id (int (nat ((page - 1) * per_page) + k) + 1)
               (all_users ! (nat ((page - 1) * per_page) + k))"
        by auto
      moreover have "0 \<le> (page - 1) * per_page" using assms p(1) by simp
      ultimately show ?thesis by (simp add: nat_add_distrib)
    qed
    from 1 page_rank_list [OF assms p, of viewer_id] 3 show ?thesis by blast
  qed
  have C: "concat (map (\<lambda>page. map e_rank
                (entries (text_of (build_leaderboard_text all_users page per_page viewer_id))))
             [1 .. ?tp]) = [1 .. ?n]"
  proof -
    have eq: "map (\<lambda>page. map e_rank
                (entries (text_of (build_leaderboard_text all_users page per_page viewer_id))))
             [1 .. ?tp] =
          map (\<lambda>p. [(p - 1) * per_page + 1 .. min (p * per_page) ?n]) [1 .. ?tp]"
      by (rule map_cong [OF refl]) (simp add: page_rank_list [OF assms])
    have "?n \<le> ceil_div ?n per_page * per_page" using assms by (intro ceil_div_upper) simp
    also have "\<dots> \<le> ?tp * per_page" using assms by (intro mult_right_mono) simp_all
    finally have up: "min (?tp * per_page) ?n = ?n" by simp
    have "concat (map (\<lambda>p. [(p - 1) * per_page + 1 .. min (p * per_page) ?n]) [1 .. ?tp]) =
          [1 .. min (?tp * per_page) ?n]"
      by (rule pages_concat [OF assms]) simp_all
    then show ?thesis unfolding eq up .
  qed
  show ?thesis unfolding tp using A B C by blast
qed

theorem render_page_partition_witness:
  "(1::int) \<le> 2 \<and>
   map e_rank (entries (text_of (build_leaderboard_text sample_users 1 2 0))) = [1, 2] \<and>
   map e_rank (entries (text_of (build_leaderboard_text sample_users 2 2 0))) = [3] \<and>
   map e_user_id (entries (text_of (build_leaderboard_text sample_users 2 2 0))) = [13]"
proof -
  have h: "(1::int) \<le> 2" by simp
  have n: "length sample_users = 3" by (simp add: sample_users_def)
  have tp: "max 1 \<lceil>real (length sample_users) / real_of_int 2\<rceil> = 2" by (simp add: n)
  note t = render_page_partition [OF h, of sample_users 0, unfolded tp n]
  from t have pages: "\<forall>page \<in> {1 .. 2}.
        map e_rank (entries (text_of (build_leaderboard_text sample_users page 2 0))) =
          [(page - 1) * 2 + 1 .. min (page * 2) 3] \<and>
        (\<forall>e \<in> set (entries (text_of (build_leaderboard_text sample_users page 2 0))).
           e = render_entry 0 (e_rank e) (sample_users ! nat (e_rank e - 1)))"
    by simp
  from pages [THEN bspec, of 1]
  have p1: "map e_rank (entries (text_of (build_leaderboard_text sample_users 1 2 0))) = [1 .. 2]"
    by simp
  from pages [THEN bspec, of 2]
  have p2: "map e_rank (entries (text_of (build_leaderboard_text sample_users 2 2 0))) = [3 .. 3]"
    and e2: "\<forall>e \<in> set (entries (text_of (build_leaderboard_text sample_users 2 2 0))).
      e = render_entry 0 (e_rank e) (sample_users ! nat (e_rank e - 1))"
    by simp_all
  obtain e where es: "entries (text_of (build_leaderboard_text sample_users 2 2 0)) = [e]"
    using p2 by (auto simp: upto.simps)
  with p2 e2 have "e = render_entry 0 3 (sample_users ! 2)" by (simp add: upto.simps)
  then have "e_user_id e = 13" by (simp add: sample_users_def sample_row_def)
  with es p1 p2 show ?thesis by (simp add: upto.simps)
qed

text \<open>
  C2: for \<open>per_page \<ge> 1\<close> the renderer returns a result whose clamped page lies in
  \<open>[1, total_pages]\<close>; a request for a page below 1 returns the very result of page 1,
  and a request for a page above \<open>total_pages\<close> the very result of page \<open>total_pages\<close>.
\<close>

theorem clamping:
  assumes "1 \<le> per_page"
  shows "\<exists>text total_pages clamped_page.
           build_leaderboard_text all_users page per_page viewer_id =
             Inr (text, total_pages, clamped_page) \<and>
           1 \<le> clamped_page \<and> clamped_page \<le> total_pages \<and>
           (page < 1 \<longrightarrow>
              build_leaderboard_text all_users page per_page viewer_id =
              build_leaderboard_text all_users 1 per_page viewer_id) \<and>
           (total_pages < page \<longrightarrow>
              build_leaderboard_text all_users page per_page viewer_id =
              build_leaderboard_text all_users total_pages per_page viewer_id)"
proof -
  let ?tp = "max 1 (ceil_div (int (length all_users)) per_page)"
  have low: "page < 1 \<Longrightarrow> max 1 (min page ?tp) = max 1 (min 1 ?tp)" by simp
  have high: "?tp < page \<Longrightarrow> max 1 (min page ?tp) = max 1 (min ?tp ?tp)" by simp
  have l: "build_leaderboard_text all_users page per_page viewer_id =
              build_leaderboard_text all_users 1 per_page viewer_id" if "page < 1"
  proof -
    have "build_leaderboard_text all_users page per_page viewer_id =
          build_leaderboard_text all_users (max 1 (min page ?tp)) per_page viewer_id"
      by (rule build_clamped [OF assms])
    also have "\<dots> = build_leaderboard_text all_users (max 1 (min 1 ?tp)) per_page viewer_id"
      by (simp only: low [OF that])
    also have "\<dots> = build_leaderboard_text all_users 1 per_page viewer_id"
      by (rule build_clamped [OF assms, symmetric])
    finally show ?thesis .
  qed
  have h: "build_leaderboard_text all_users page per_page viewer_id =
              build_leaderboard_text all_users ?tp per_page viewer_id" if "?tp < page"
  proof -
    have "build_leaderboard_text all_users page per_page viewer_id =
          build_leaderboard_text all_users (max 1 (min page ?tp)) per_page viewer_id"
      by (rule build_clamped [OF assms])
    also have "\<dots> = build_leaderboard_text all_users (max 1 (min ?tp ?tp)) per_page viewer_id"
      by (simp only: high [OF that])
    also have "\<dots> = build_leaderboard_text all_users ?tp per_page viewer_id"
      by (rule build_clamped [OF assms, symmetric])
    finally show ?thesis .
  qed
  obtain t where r: "build_leaderboard_text all_users page per_page viewer_id =
      Inr (t, ?tp, max 1 (min page ?tp))"
    by (simp add: build_unfold [OF assms])
  have b: "1 \<le> max 1 (min page ?tp)" "max 1 (min page ?tp) \<le> ?tp" by simp_all
  from r b l h show ?thesis by blast
qed

theorem clamping_witness:
  "(1::int) \<le> 2 \<and>
   build_leaderboard_text sample_users 5 2 0 = build_leaderboard_text sample_users 2 2 0 \<and>
   build_leaderboard_text sample_users (- 3) 2 0 = build_leaderboard_text sample_users 1 2 0"
proof -
  have h: "(1::int) \<le> 2" by simp
  have tp: "max 1 (ceil_div (int (length sample_users)) 2) = 2"
    by (simp add: sample_users_def ceil_div_def)
  obtain t tp' cp where a: "build_leaderboard_text sample_users 5 2 0 = Inr (t, tp', cp)"
    and b: "tp' < 5 \<longrightarrow> build_leaderboard_text sample_users 5 2 0 =
              build_leaderboard_text sample_users tp' 2 0"
    using clamping [OF h, of sample_users 5 0] by blast
  from a have "tp' = 2" unfolding build_unfold [OF h] tp by simp
  with b have hi: "build_leaderboard_text sample_users 5 2 0 =
      build_leaderboard_text sample_users 2 2 0" by simp
  have lo: "build_leaderboard_text sample_users (- 3) 2 0 =
      build_leaderboard_text sample_users 1 2 0"
    using clamping [OF h, of sample_users "- 3" 0] by auto
  from h hi lo show ?thesis by blast
qed

section \<open>The viewer's own rank\<close>

lemma first_index_eq:
  "k < length rs \<Longrightarrow> user_id (rs ! k) = v \<Longrightarrow> (\<forall>j<k. user_id (rs ! j) \<noteq> v) \<Longrightarrow>
   first_index v i rs d = i + int k"
proof (induction rs arbitrary: i k)
  case Nil
  then show ?case by simp
next
  case (Cons r rs)
  show ?case
  proof (cases k)
    case 0
    with Cons.prems show ?thesis by simp
  next
    case (Suc k')
    with Cons.prems have "user_id r \<noteq> v" by auto
    moreover have "first_index v (i + 1) rs d = i + 1 + int k'"
      using Cons.prems Suc by (intro Cons.IH) auto
    ultimately show ?thesis using Suc by simp
  qed
qed

lemma html_escape_Unknown: "html_escape ''Unknown'' = ''Unknown''"
  by (simp add: html_escape_def escape_char_def)

lemma your_rank_block_absent:
  assumes "\<forall>r \<in> set us. user_id r \<noteq> v"
  shows "your_rank_block us v n = YourRank (n + 1) ''Unknown'' v 0 (IntV 0) 0 0 0 0"
proof -
  have "find (\<lambda>r. user_id r = v) us = None" using assms by (simp add: find_None_iff)
  then show ?thesis by (simp add: your_rank_block_def html_escape_Unknown)
qed

lemma your_rank_block_present:
  assumes "\<exists>r \<in> set us. user_id r = v"
  shows "\<exists>k < length us.
           user_id (us ! k) = v \<and> (\<forall>j<k. user_id (us ! j) \<noteq> v) \<and>
           your_rank_block us v n =
             YourRank (int k + 1)
               (html_escape (or_str (username (us ! k)) (or_str (first_name (us ! k)) ''Unknown'')))
               v (or_int (games_played (us ! k)) 0)
               (if or_int (games_played (us ! k)) 0 \<noteq> 0
                then Round1 (or_int (wins (us ! k)) 0) (or_int (games_played (us ! k)) 0)
                else IntV 0)
               (or_int (wins (us ! k)) 0) (or_int (losses (us ! k)) 0)
               (or_int (total_score (us ! k)) 0) (or_int (penalties (us ! k)) 0)"
proof -
  from assms obtain x where "find (\<lambda>r. user_id r = v) us = Some x"
    by (cases "find (\<lambda>r. user_id r = v) us") (auto simp: find_None_iff)
  then obtain k where k: "k < length us" "user_id (us ! k) = v" "x = us ! k"
      "\<forall>j<k. user_id (us ! j) \<noteq> v"
    and f: "find (\<lambda>r. user_id r = v) us = Some (us ! k)"
    by (auto simp: find_Some_iff)
  have fi: "first_index v 1 us (n + 1) = 1 + int k"
    using k by (intro first_index_eq) auto
  show ?thesis
    using k(1,2,4) by (intro exI [of _ k]) (simp add: your_rank_block_def f fi Let_def)
qed

lemma is_YourRank_block [simp]: "is_YourRank (your_rank_block us v n)"
  by (simp add: your_rank_block_def Let_def split: option.split)

lemma y_user_id_block [simp]: "y_user_id (your_rank_block us v n) = v"
  by (simp add: your_rank_block_def Let_def split: option.split)

lemma build_raw:
  fixes us :: "row list" and pp page v :: int
  assumes pp: "pp \<noteq> 0"
  defines "tp \<equiv> max 1 (ceil_div (int (length us)) pp)"
  defines "p \<equiv> max 1 (min page tp)"
  defines "sl \<equiv> py_slice us ((p - 1) * pp) (min ((p - 1) * pp + pp) (int (length us)))"
  shows "build_leaderboard_text us page pp v =
     Inr (Title # map (\<lambda>k. render_entry v ((p - 1) * pp + 1 + int k) (sl ! k)) [0..<length sl]
            @ (if \<exists>r \<in> set sl. user_id r = v then []
               else [your_rank_block us v (int (length us))]),
          tp, p)"
  unfolding build_leaderboard_text_def Let_def render_rows_eq prod.case
    sl_def [symmetric, unfolded p_def tp_def] p_def tp_def
  using pp by simp

lemma Entry_not_YourRank: "is_Entry e \<Longrightarrow> \<not> is_YourRank e"
  by (cases e) simp_all

lemma sample_page2:
  "build_leaderboard_text sample_users 2 2 11 =
     Inr ([Title, Entry 3 Bronze False ''Unknown'' 13 0 (IntV 0) 0 0 0 0,
           YourRank 1 ''ann'' 11 4 (Round1 3 4) 3 1 30 0], 2, 2)"
  by code_simp


lemma page_rows_take:
  fixes us :: "row list" and pp page :: int
  assumes pp: "1 \<le> pp"
  defines "p \<equiv> max 1 (min page (max 1 (ceil_div (int (length us)) pp)))"
  shows "py_slice us ((p - 1) * pp) (min ((p - 1) * pp + pp) (int (length us))) =
         take (nat pp) (drop (nat ((p - 1) * pp)) us)"
proof -
  have p: "1 \<le> p" "p \<le> max 1 (ceil_div (int (length us)) pp)" by (auto simp: p_def)
  have n0: "0 \<le> int (length us)" by simp
  note st = page_start_le [OF pp p(1) p(2) n0]
  have "py_slice us ((p - 1) * pp) (min ((p - 1) * pp + pp) (int (length us))) =
        take (nat (min pp (int (length us) - (p - 1) * pp))) (drop (nat ((p - 1) * pp)) us)"
    using st pp unfolding py_slice_def Let_def by (auto simp: min_def)
  also have "\<dots> = take (nat pp) (drop (nat ((p - 1) * pp)) us)"
    using st pp by (auto simp: min_def)
  finally show ?thesis .
qed

lemma your_rank_blocks_page:
  "your_rank_blocks (Title # map (\<lambda>k. render_entry v (f k) (g k)) ks) = []"
  unfolding your_rank_blocks_def
  by (induction ks) (auto simp: Entry_not_YourRank)

lemma sample_page1:
  "build_leaderboard_text sample_users 1 2 11 =
     Inr ([Title, Entry 1 Gold True ''Ann'' 11 4 (Round1 3 4) 3 1 30 0,
           Entry 2 Silver False ''bob'' 12 4 (Round1 2 4) 2 2 25 0], 2, 1)"
  by code_simp

text \<open>
  C3: whenever the renderer returns, the rows of the page are the slice
  \<^verbatim>\<open>all_users[start_idx:end_idx]\<close> of the full ordering for the clamped page, which for
  \<open>per_page \<ge> 1\<close> is the \<open>per_page\<close> rows from position \<open>(clamped_page - 1) * per_page\<close> on.
  If no row of that slice has the viewer's identifier, the text is the title, the entries
  of the slice and then exactly one "Your Rank" block, which names the viewer: if the
  viewer has a row in the full ordering, the block's rank is the 1-based position of the
  viewer's first row in that same ordering and its counters are that row's; if the viewer
  has no row, the block is the all-zero default with rank \<open>total_users + 1\<close> and the name
  "Unknown". If a row of the slice has the viewer's identifier, the text is the title and
  the entries of the slice, with no "Your Rank" block.
\<close>

theorem your_rank_block_spec:
  fixes all_users :: "row list" and per_page page viewer_id :: int
  assumes res: "build_leaderboard_text all_users page per_page viewer_id =
             Inr (text, total_pages, clamped_page)"
  defines "start_idx \<equiv> (clamped_page - 1) * per_page"
  defines "page_rows \<equiv>
     py_slice all_users start_idx (min (start_idx + per_page) (int (length all_users)))"
  defines "page_blocks \<equiv>
     map (\<lambda>k. render_entry viewer_id (start_idx + 1 + int k) (page_rows ! k))
       [0..<length page_rows]"
  shows
    "(1 \<le> per_page \<longrightarrow>
        page_rows = take (nat per_page) (drop (nat start_idx) all_users)) \<and>
     ((\<forall>r \<in> set page_rows. user_id r \<noteq> viewer_id) \<longrightarrow>
        (\<exists>blk.
           text = Title # page_blocks @ [blk] \<and> your_rank_blocks text = [blk] \<and>
           is_YourRank blk \<and> y_user_id blk = viewer_id \<and>
           ((\<exists>r \<in> set all_users. user_id r = viewer_id) \<longrightarrow>
              (\<exists>k < length all_users.
                 user_id (all_users ! k) = viewer_id \<and>
                 (\<forall>j<k. user_id (all_users ! j) \<noteq> viewer_id) \<and>
                 y_rank blk = int k + 1 \<and>
                 y_games blk = or_int (games_played (all_users ! k)) 0 \<and>
                 y_wins blk = or_int (wins (all_users ! k)) 0 \<and>
                 y_losses blk = or_int (losses (all_users ! k)) 0 \<and>
                 y_score blk = or_int (total_score (all_users ! k)) 0 \<and>
                 y_penalties blk = or_int (penalties (all_users ! k)) 0)) \<and>
           ((\<forall>r \<in> set all_users. user_id r \<noteq> viewer_id) \<longrightarrow>
              blk = YourRank (int (length all_users) + 1) ''Unknown'' viewer_id 0 (IntV 0) 0 0 0 0))) \<and>
     ((\<exists>r \<in> set page_rows. user_id r = viewer_id) \<longrightarrow>
        text = Title # page_blocks \<and> your_rank_blocks text = [])"
proof -
  let ?blk = "your_rank_block all_users viewer_id (int (length all_users))"
  have pp: "per_page \<noteq> 0"
  proof
    assume "per_page = 0"
    then have "build_leaderboard_text all_users page per_page viewer_id = Inl ZeroDivisionError"
      by (simp add: build_leaderboard_text_def)
    with res show False by simp
  qed
  have cp: "clamped_page = max 1 (min page (max 1 (ceil_div (int (length all_users)) per_page)))"
    using res unfolding build_raw [OF pp] by auto
  have t: "text = Title # page_blocks @
             (if \<exists>r \<in> set page_rows. user_id r = viewer_id then [] else [?blk])"
    using res unfolding build_raw [OF pp] page_blocks_def page_rows_def start_idx_def cp by auto
  have nb: "your_rank_blocks (Title # page_blocks) = []"
    unfolding page_blocks_def by (rule your_rank_blocks_page)
  have nb1: "your_rank_blocks (Title # page_blocks @ [?blk]) = [?blk]"
    using nb by (simp add: your_rank_blocks_def)
  have A: "page_rows = take (nat per_page) (drop (nat start_idx) all_users)" if "1 \<le> per_page"
    unfolding page_rows_def start_idx_def cp by (rule page_rows_take [OF that])
  have pres: "\<exists>k < length all_users.
                 user_id (all_users ! k) = viewer_id \<and>
                 (\<forall>j<k. user_id (all_users ! j) \<noteq> viewer_id) \<and>
                 y_rank ?blk = int k + 1 \<and>
                 y_games ?blk = or_int (games_played (all_users ! k)) 0 \<and>
                 y_wins ?blk = or_int (wins (all_users ! k)) 0 \<and>
                 y_losses ?blk = or_int (losses (all_users ! k)) 0 \<and>
                 y_score ?blk = or_int (total_score (all_users ! k)) 0 \<and>
                 y_penalties ?blk = or_int (penalties (all_users ! k)) 0"
    if "\<exists>r \<in> set all_users. user_id r = viewer_id"
  proof -
    from your_rank_block_present [OF that, of "int (length all_users)"]
    obtain k where k: "k < length all_users" "user_id (all_users ! k) = viewer_id"
      "\<forall>j<k. user_id (all_users ! j) \<noteq> viewer_id"
      and b: "?blk = YourRank (int k + 1)
             (html_escape (or_str (username (all_users ! k)) (or_str (first_name (all_users ! k)) ''Unknown'')))
             viewer_id (or_int (games_played (all_users ! k)) 0)
             (if or_int (games_played (all_users ! k)) 0 \<noteq> 0
              then Round1 (or_int (wins (all_users ! k)) 0) (or_int (games_played (all_users ! k)) 0)
              else IntV 0)
             (or_int (wins (all_users ! k)) 0) (or_int (losses (all_users ! k)) 0)
             (or_int (total_score (all_users ! k)) 0) (or_int (penalties (all_users ! k)) 0)"
      by blast
    have sel: "y_rank ?blk = int k + 1"
        "y_games ?blk = or_int (games_played (all_users ! k)) 0"
        "y_wins ?blk = or_int (wins (all_users ! k)) 0"
        "y_losses ?blk = or_int (losses (all_users ! k)) 0"
        "y_score ?blk = or_int (total_score (all_users ! k)) 0"
        "y_penalties ?blk = or_int (penalties (all_users ! k)) 0"
      unfolding b by (simp_all only: segment.sel)
    from k sel show ?thesis by blast
  qed
  have abs: "?blk = YourRank (int (length all_users) + 1) ''Unknown'' viewer_id 0 (IntV 0) 0 0 0 0"
    if "\<forall>r \<in> set all_users. user_id r \<noteq> viewer_id"
    by (rule your_rank_block_absent [OF that])
  have B: "\<exists>blk.
           text = Title # page_blocks @ [blk] \<and> your_rank_blocks text = [blk] \<and>
           is_YourRank blk \<and> y_user_id blk = viewer_id \<and>
           ((\<exists>r \<in> set all_users. user_id r = viewer_id) \<longrightarrow>
              (\<exists>k < length all_users.
                 user_id (all_users ! k) = viewer_id \<and>
                 (\<forall>j<k. user_id (all_users ! j) \<noteq> viewer_id) \<and>
                 y_rank blk = int k + 1 \<and>
                 y_games blk = or_int (games_played (all_users ! k)) 0 \<and>
                 y_wins blk = or_int (wins (all_users ! k)) 0 \<and>
                 y_losses blk = or_int (losses (all_users ! k)) 0 \<and>
                 y_score blk = or_int (total_score (all_users ! k)) 0 \<and>
                 y_penalties blk = or_int (penalties (all_users ! k)) 0)) \<and>
           ((\<forall>r \<in> set all_users. user_id r \<noteq> viewer_id) \<longrightarrow>
              blk = YourRank (int (length all_users) + 1) ''Unknown'' viewer_id 0 (IntV 0) 0 0 0 0)"
    if n: "\<forall>r \<in> set page_rows. user_id r \<noteq> viewer_id"
  proof -
    from n have "\<not> (\<exists>r \<in> set page_rows. user_id r = viewer_id)" by blast
    with t have t': "text = Title # page_blocks @ [?blk]" by (simp only: if_False)
    show ?thesis
    proof (rule exI [of _ ?blk], intro conjI impI)
      show "text = Title # page_blocks @ [?blk]" by (rule t')
      show "your_rank_blocks text = [?blk]" unfolding t' by (rule nb1)
      show "is_YourRank ?blk" by (rule is_YourRank_block)
      show "y_user_id ?blk = viewer_id" by (rule y_user_id_block)
    next
      assume "\<exists>r \<in> set all_users. user_id r = viewer_id"
      then show "\<exists>k < length all_users.
                 user_id (all_users ! k) = viewer_id \<and>
                 (\<forall>j<k. user_id (all_users ! j) \<noteq> viewer_id) \<and>
                 y_rank ?blk = int k + 1 \<and>
                 y_games ?blk = or_int (games_played (all_users ! k)) 0 \<and>
                 y_wins ?blk = or_int (wins (all_users ! k)) 0 \<and>
                 y_losses ?blk = or_int (losses (all_users ! k)) 0 \<and>
                 y_score ?blk = or_int (total_score (all_users ! k)) 0 \<and>
                 y_penalties ?blk = or_int (penalties (all_users ! k)) 0"
        by (rule pres)
    next
      assume "\<forall>r \<in> set all_users. user_id r \<noteq> viewer_id"
      then show "?blk = YourRank (int (length all_users) + 1) ''Unknown'' viewer_id 0 (IntV 0) 0 0 0 0"
        by (rule abs)
    qed
  qed
  have C: "text = Title # page_blocks \<and> your_rank_blocks text = []"
    if "\<exists>r \<in> set page_rows. user_id r = viewer_id"
  proof -
    from t that have "text = Title # page_blocks" by simp
    with nb show ?thesis by simp
  qed
  from A B C show ?thesis by blast
qed

theorem your_rank_block_spec_witness:
  "11 \<notin> user_id ` set (take 2 (drop 2 sample_users)) \<and>
   (\<exists>blk. text_of (build_leaderboard_text sample_users 2 2 11) =
            [Title, render_entry 11 3 (sample_users ! 2), blk] \<and>
          your_rank_blocks (text_of (build_leaderboard_text sample_users 2 2 11)) = [blk] \<and>
          y_user_id blk = 11 \<and> y_rank blk = 1 \<and> y_wins blk = 3) \<and>
   11 \<in> user_id ` set (take 2 (drop 0 sample_users)) \<and>
   text_of (build_leaderboard_text sample_users 1 2 11) =
     [Title, render_entry 11 1 (sample_users ! 0), render_entry 11 2 (sample_users ! 1)] \<and>
   your_rank_blocks (text_of (build_leaderboard_text sample_users 1 2 11)) = []"
proof -
  have pp: "(1::int) \<le> 2" by simp
  have s2: "take (nat 2) (drop (nat ((2 - 1) * 2)) sample_users) = [sample_users ! 2]"
    by (simp add: sample_users_def)
  have s1: "take (nat 2) (drop (nat ((1 - 1) * 2)) sample_users) =
            [sample_users ! 0, sample_users ! 1]"
    by (simp add: sample_users_def)
  have u: "user_id (sample_users ! 0) = 11" "user_id (sample_users ! 1) = 12"
    "user_id (sample_users ! 2) = 13" "length sample_users = 3"
    "or_int (wins (sample_users ! 0)) 0 = 3"
    by (simp_all add: sample_users_def sample_row_def or_int_def)
  note t2 = your_rank_block_spec [OF sample_page2]
  from t2 [THEN conjunct1, THEN mp, OF pp] s2
  have r2: "py_slice sample_users ((2 - 1) * 2) (min ((2 - 1) * 2 + 2) (int (length sample_users))) =
            [sample_users ! 2]"
    by simp
  have a2: "\<forall>r \<in> set [sample_users ! 2]. user_id r \<noteq> 11" by (simp add: u)
  have pres: "\<exists>r \<in> set sample_users. user_id r = 11"
    by (simp add: sample_users_def sample_row_def)
  from t2 [THEN conjunct2, THEN conjunct1, unfolded r2, THEN mp, OF a2]
  obtain blk where b: "[Title, Entry 3 Bronze False ''Unknown'' 13 0 (IntV 0) 0 0 0 0,
           YourRank 1 ''ann'' 11 4 (Round1 3 4) 3 1 30 0] =
        Title # map (\<lambda>k. render_entry 11 ((2 - 1) * 2 + 1 + int k) ([sample_users ! 2] ! k))
                 [0..<length [sample_users ! 2]] @ [blk]"
    and y: "your_rank_blocks [Title, Entry 3 Bronze False ''Unknown'' 13 0 (IntV 0) 0 0 0 0,
           YourRank 1 ''ann'' 11 4 (Round1 3 4) 3 1 30 0] = [blk]" "y_user_id blk = 11"
    and p: "(\<exists>r \<in> set sample_users. user_id r = 11) \<longrightarrow>
              (\<exists>k < length sample_users.
                 user_id (sample_users ! k) = 11 \<and>
                 (\<forall>j<k. user_id (sample_users ! j) \<noteq> 11) \<and>
                 y_rank blk = int k + 1 \<and>
                 y_games blk = or_int (games_played (sample_users ! k)) 0 \<and>
                 y_wins blk = or_int (wins (sample_users ! k)) 0 \<and>
                 y_losses blk = or_int (losses (sample_users ! k)) 0 \<and>
                 y_score blk = or_int (total_score (sample_users ! k)) 0 \<and>
                 y_penalties blk = or_int (penalties (sample_users ! k)) 0)"
    by blast
  from p pres obtain k where k: "\<forall>j<k. user_id (sample_users ! j) \<noteq> 11"
    "y_rank blk = int k + 1" "y_wins blk = or_int (wins (sample_users ! k)) 0"
    by blast
  have k0: "k = 0"
  proof (rule ccontr)
    assume "k \<noteq> 0"
    then have "0 < k" by simp
    with k(1) have "user_id (sample_users ! 0) \<noteq> 11" by blast
    with u(1) show False by simp
  qed
  have A: "11 \<notin> user_id ` set (take 2 (drop 2 sample_users))"
    by (simp add: sample_users_def sample_row_def)
  have B: "\<exists>blk. text_of (build_leaderboard_text sample_users 2 2 11) =
            [Title, render_entry 11 3 (sample_users ! 2), blk] \<and>
          your_rank_blocks (text_of (build_leaderboard_text sample_users 2 2 11)) = [blk] \<and>
          y_user_id blk = 11 \<and> y_rank blk = 1 \<and> y_wins blk = 3"
  proof (intro exI [of _ blk] conjI)
    show "text_of (build_leaderboard_text sample_users 2 2 11) =
            [Title, render_entry 11 3 (sample_users ! 2), blk]"
      unfolding sample_page2 using b by (simp add: text_of_def)
    show "your_rank_blocks (text_of (build_leaderboard_text sample_users 2 2 11)) = [blk]"
      unfolding sample_page2 using y(1) by (simp add: text_of_def)
    show "y_user_id blk = 11" by (rule y(2))
    show "y_rank blk = 1" using k(2) k0 by simp
    show "y_wins blk = 3" using k(3) k0 u(5) by simp
  qed
  note t1 = your_rank_block_spec [OF sample_page1]
  from t1 [THEN conjunct1, THEN mp, OF pp] s1
  have r1: "py_slice sample_users ((1 - 1) * 2) (min ((1 - 1) * 2 + 2) (int (length sample_users))) =
            [sample_users ! 0, sample_users ! 1]"
    by simp
  have a1: "\<exists>r \<in> set [sample_users ! 0, sample_users ! 1]. user_id r = 11" by (simp add: u)
  from t1 [THEN conjunct2, THEN conjunct2, unfolded r1, THEN mp, OF a1]
  have c: "[Title, Entry 1 Gold True ''Ann'' 11 4 (Round1 3 4) 3 1 30 0,
           Entry 2 Silver False ''bob'' 12 4 (Round1 2 4) 2 2 25 0] =
        Title # map (\<lambda>k. render_entry 11 ((1 - 1) * 2 + 1 + int k)
                       ([sample_users ! 0, sample_users ! 1] ! k))
                 [0..<length [sample_users ! 0, sample_users ! 1]]"
    and d: "your_rank_blocks [Title, Entry 1 Gold True ''Ann'' 11 4 (Round1 3 4) 3 1 30 0,
           Entry 2 Silver False ''bob'' 12 4 (Round1 2 4) 2 2 25 0] = []"
    by blast+
  have C: "11 \<in> user_id ` set (take 2 (drop 0 sample_users))"
    by (simp add: sample_users_def sample_row_def)
  have D: "text_of (build_leaderboard_text sample_users 1 2 11) =
     [Title, render_entry 11 1 (sample_users ! 0), render_entry 11 2 (sample_users ! 1)]"
    unfolding sample_page1 using c by (simp add: text_of_def upt_rec)
  have E: "your_rank_blocks (text_of (build_leaderboard_text sample_users 1 2 11)) = []"
    unfolding sample_page1 using d by (simp add: text_of_def)
  show ?thesis by (intro conjI) (fact A, fact B, fact C, fact D, fact E)
qed

section \<open>Rank summaries\<close>

lemma scan_rank_found:
  "k < length rs \<Longrightarrow> user_id (rs ! k) = uid \<Longrightarrow> (\<forall>j<k. user_id (rs ! j) \<noteq> uid) \<Longrightarrow>
   scan_rank uid n i rs = Some (summary_of_row (rs ! k) (i + int k) n)"
proof (induction rs arbitrary: i k)
  case Nil
  then show ?case by simp
next
  case (Cons r rs)
  show ?case
  proof (cases k)
    case 0
    with Cons.prems show ?thesis by simp
  next
    case (Suc k')
    with Cons.prems have "user_id r \<noteq> uid" by auto
    moreover have "scan_rank uid n (i + 1) rs = Some (summary_of_row (rs ! k') (i + 1 + int k') n)"
      using Cons.prems Suc by (intro Cons.IH) auto
    ultimately show ?thesis using Suc by (simp add: add.assoc)
  qed
qed

lemma scan_rank_absent:
  "\<forall>r \<in> set rs. user_id r \<noteq> uid \<Longrightarrow> scan_rank uid n i rs = None"
  by (induction rs arbitrary: i) auto

lemma get_user_rank_found:
  assumes "k < length (get_all_users_sorted st 100)"
    and "user_id (get_all_users_sorted st 100 ! k) = uid"
    and "\<forall>j<k. user_id (get_all_users_sorted st 100 ! j) \<noteq> uid"
  shows "get_user_rank st uid =
         summary_of_row (get_all_users_sorted st 100 ! k) (int k + 1)
           (int (length (get_all_users_sorted st 100)))"
  using scan_rank_found [OF assms, of "int (length (get_all_users_sorted st 100))" 1]
  by (simp add: get_user_rank_def get_user_rank_body_def Let_def add.commute)

lemma get_user_rank_absent:
  assumes "\<forall>r \<in> set (get_all_users_sorted st 100). user_id r \<noteq> uid"
  shows "get_user_rank st uid = not_in_list (int (length (get_all_users_sorted st 100)))"
  using scan_rank_absent [OF assms, of "int (length (get_all_users_sorted st 100))" 1]
  by (simp add: get_user_rank_def get_user_rank_body_def Let_def)

lemma rank_key_le_iff:
  "rank_key a \<le> rank_key b \<longleftrightarrow>
     or_int (wins b) 0 < or_int (wins a) 0 \<or>
     (or_int (wins a) 0 = or_int (wins b) 0 \<and> or_int (total_score b) 0 \<le> or_int (total_score a) 0)"
  by (auto simp: rank_key_def less_eq_prod_def)

lemma ordering_sorted:
  "sorted_wrt (\<lambda>a b. or_int (wins b) 0 < or_int (wins a) 0 \<or>
     (or_int (wins a) 0 = or_int (wins b) 0 \<and> or_int (total_score b) 0 \<le> or_int (total_score a) 0))
     (get_all_users_sorted st limit)"
proof (cases st)
  case (Inl e)
  then show ?thesis by (simp add: get_all_users_sorted_def query_users_sorted_def)
next
  case (Inr table)
  let ?xs = "sort_key rank_key (map select_columns table)"
  have "sorted (map rank_key ?xs)" by (rule sorted_sort_key)
  then have "sorted_wrt (\<lambda>a b. rank_key a \<le> rank_key b) ?xs"
    by (simp add: sorted_wrt_map)
  then have s: "sorted_wrt (\<lambda>a b. or_int (wins b) 0 < or_int (wins a) 0 \<or>
     (or_int (wins a) 0 = or_int (wins b) 0 \<and> or_int (total_score b) 0 \<le> or_int (total_score a) 0)) ?xs"
    by (simp only: rank_key_le_iff)
  have "sorted_wrt (\<lambda>a b. or_int (wins b) 0 < or_int (wins a) 0 \<or>
     (or_int (wins a) 0 = or_int (wins b) 0 \<and> or_int (total_score b) 0 \<le> or_int (total_score a) 0))
     (limit_rows limit ?xs)"
    using s by (auto simp: limit_rows_def intro: sorted_wrt_take)
  then show ?thesis using Inr by (simp add: get_all_users_sorted_def query_users_sorted_def)
qed

lemma sample_ordering: "get_all_users_sorted (Inr (rev sample_users)) 100 = sample_users"
  by code_simp

lemma big_table_cut:
  "\<forall>r \<in> set (take 100 (sort_key rank_key (map select_columns big_table))). user_id r \<noteq> 101"
  by code_simp

text \<open>
  C8: whatever exception the retrieval raises, \<^verbatim>\<open>get_all_users_sorted\<close> returns the empty
  ordering and \<^verbatim>\<open>get_user_rank\<close> returns the summary with rank 1, 0 users, all counters
  zero and the name "Unknown". Both are total functions into plain values: no exception
  leaves them.
\<close>

theorem retrieval_fault_recovered:
  "get_all_users_sorted (Inl e) limit = [] \<and>
   get_user_rank (Inl e) uid =
     \<lparr>rs_username = ''Unknown'', rs_rank = 1, rs_total_users = 0,
      rs_total_played = 0, rs_wins = 0, rs_losses = 0, rs_win_percent = IntV 0,
      rs_rounds_played = 0, rs_eliminations = 0, rs_total_score = 0, rs_penalties = 0\<rparr>"
  by (simp add: get_all_users_sorted_def query_users_sorted_def get_user_rank_def
      get_user_rank_body_def not_in_list_def)

text \<open>
  C5: the ordering scanned by \<^verbatim>\<open>get_user_rank\<close> is sorted by wins descending, then by
  score descending. For a user whose first row in it is at position \<open>k\<close> (from 0), the
  summary has rank \<open>k + 1\<close>, \<open>total_users\<close> the length of the ordering, the row's games and
  wins, \<open>win_percent = round(wins / games_played * 100, 1)\<close> when \<open>games_played > 0\<close> and the
  integer 0 when \<open>games_played = 0\<close>. For a user with no row in the ordering it is
  the all-zero summary with rank \<open>total_users + 1\<close>.
\<close>

theorem get_user_rank_spec:
  "sorted_wrt (\<lambda>a b. or_int (wins b) 0 < or_int (wins a) 0 \<or>
       (or_int (wins a) 0 = or_int (wins b) 0 \<and>
        or_int (total_score b) 0 \<le> or_int (total_score a) 0))
     (get_all_users_sorted st 100) \<and>
   (\<forall>k < length (get_all_users_sorted st 100).
      user_id (get_all_users_sorted st 100 ! k) = uid \<and>
      (\<forall>j<k. user_id (get_all_users_sorted st 100 ! j) \<noteq> uid) \<longrightarrow>
        rs_rank (get_user_rank st uid) = int k + 1 \<and>
        rs_total_users (get_user_rank st uid) = int (length (get_all_users_sorted st 100)) \<and>
        rs_total_played (get_user_rank st uid) =
          or_int (games_played (get_all_users_sorted st 100 ! k)) 0 \<and>
        rs_wins (get_user_rank st uid) = or_int (wins (get_all_users_sorted st 100 ! k)) 0 \<and>
        (0 < rs_total_played (get_user_rank st uid) \<longrightarrow>
           rs_win_percent (get_user_rank st uid) =
             Round1 (rs_wins (get_user_rank st uid)) (rs_total_played (get_user_rank st uid))) \<and>
        (rs_total_played (get_user_rank st uid) = 0 \<longrightarrow>
           rs_win_percent (get_user_rank st uid) = IntV 0)) \<and>
   ((\<forall>r \<in> set (get_all_users_sorted st 100). user_id r \<noteq> uid) \<longrightarrow>
      get_user_rank st uid =
        \<lparr>rs_username = ''Unknown'',
         rs_rank = int (length (get_all_users_sorted st 100)) + 1,
         rs_total_users = int (length (get_all_users_sorted st 100)),
         rs_total_played = 0, rs_wins = 0, rs_losses = 0, rs_win_percent = IntV 0,
         rs_rounds_played = 0, rs_eliminations = 0, rs_total_score = 0, rs_penalties = 0\<rparr>)"
proof (intro conjI allI impI)
  show "sorted_wrt (\<lambda>a b. or_int (wins b) 0 < or_int (wins a) 0 \<or>
       (or_int (wins a) 0 = or_int (wins b) 0 \<and>
        or_int (total_score b) 0 \<le> or_int (total_score a) 0))
     (get_all_users_sorted st 100)"
    by (rule ordering_sorted)
next
  assume "\<forall>r \<in> set (get_all_users_sorted st 100). user_id r \<noteq> uid"
  then show "get_user_rank st uid =
        \<lparr>rs_username = ''Unknown'',
         rs_rank = int (length (get_all_users_sorted st 100)) + 1,
         rs_total_users = int (length (get_all_users_sorted st 100)),
         rs_total_played = 0, rs_wins = 0, rs_losses = 0, rs_win_percent = IntV 0,
         rs_rounds_played = 0, rs_eliminations = 0, rs_total_score = 0, rs_penalties = 0\<rparr>"
    by (simp add: get_user_rank_absent not_in_list_def)
next
  fix k
  assume k: "k < length (get_all_users_sorted st 100)"
    and m: "user_id (get_all_users_sorted st 100 ! k) = uid \<and>
      (\<forall>j<k. user_id (get_all_users_sorted st 100 ! j) \<noteq> uid)"
  have g: "get_user_rank st uid =
         summary_of_row (get_all_users_sorted st 100 ! k) (int k + 1)
           (int (length (get_all_users_sorted st 100)))"
    using k m by (intro get_user_rank_found) auto
  show "rs_rank (get_user_rank st uid) = int k + 1"
    unfolding g by (simp add: summary_of_row_def Let_def)
  show "rs_total_users (get_user_rank st uid) = int (length (get_all_users_sorted st 100))"
    unfolding g by (simp add: summary_of_row_def Let_def)
  show "rs_total_played (get_user_rank st uid) =
          or_int (games_played (get_all_users_sorted st 100 ! k)) 0"
    unfolding g by (simp add: summary_of_row_def Let_def)
  show "rs_wins (get_user_rank st uid) = or_int (wins (get_all_users_sorted st 100 ! k)) 0"
    unfolding g by (simp add: summary_of_row_def Let_def)
  show "rs_win_percent (get_user_rank st uid) =
             Round1 (rs_wins (get_user_rank st uid)) (rs_total_played (get_user_rank st uid))"
    if "0 < rs_total_played (get_user_rank st uid)"
    using that unfolding g by (simp add: summary_of_row_def Let_def)
  show "rs_win_percent (get_user_rank st uid) = IntV 0"
    if "rs_total_played (get_user_rank st uid) = 0"
    using that unfolding g by (simp add: summary_of_row_def Let_def)
qed

theorem get_user_rank_spec_witness:
  "user_id (sample_users ! 1) = 12 \<and>
   rs_rank (get_user_rank (Inr (rev sample_users)) 12) = 2 \<and>
   rs_total_users (get_user_rank (Inr (rev sample_users)) 12) = 3 \<and>
   rs_win_percent (get_user_rank (Inr (rev sample_users)) 12) = Round1 2 4 \<and>
   99 \<notin> user_id ` set sample_users \<and>
   rs_rank (get_user_rank (Inr (rev sample_users)) 99) = 4"
proof -
  note t = get_user_rank_spec [of "Inr (rev sample_users)", unfolded sample_ordering]
  have k: "(1::nat) < length sample_users" by (simp add: sample_users_def)
  have m: "user_id (sample_users ! 1) = 12 \<and> (\<forall>j<1. user_id (sample_users ! j) \<noteq> 12)"
    by (simp add: sample_users_def sample_row_def)
  from t [of 12, THEN conjunct2, THEN conjunct1, rule_format, OF k m]
  have a: "rs_rank (get_user_rank (Inr (rev sample_users)) 12) = 2"
    "rs_total_users (get_user_rank (Inr (rev sample_users)) 12) = 3"
    "rs_total_played (get_user_rank (Inr (rev sample_users)) 12) = 4"
    "rs_wins (get_user_rank (Inr (rev sample_users)) 12) = 2"
    and w: "0 < rs_total_played (get_user_rank (Inr (rev sample_users)) 12) \<longrightarrow>
           rs_win_percent (get_user_rank (Inr (rev sample_users)) 12) =
             Round1 (rs_wins (get_user_rank (Inr (rev sample_users)) 12))
               (rs_total_played (get_user_rank (Inr (rev sample_users)) 12))"
    by (simp_all add: sample_users_def sample_row_def or_int_def)
  from w a have p: "rs_win_percent (get_user_rank (Inr (rev sample_users)) 12) = Round1 2 4"
    by simp
  have n: "\<forall>r \<in> set sample_users. user_id r \<noteq> 99"
    by (simp add: sample_users_def sample_row_def)
  from t [of 99, THEN conjunct2, THEN conjunct2, THEN mp, OF n]
  have r: "rs_rank (get_user_rank (Inr (rev sample_users)) 99) = 4"
    by (simp add: sample_users_def)
  have q: "99 \<notin> user_id ` set sample_users" using n by auto
  from m have m1: "user_id (sample_users ! 1) = 12" by (rule conjunct1)
  show ?thesis by (intro conjI) (fact m1, fact a(1), fact a(2), fact p, fact q, fact r)
qed

text \<open>
  C10: the scan reads the ordering fetched with the limit 100. A user none of whose rows is
  among the first 100 rows of the sorted table gets the absent-user summary: rank
  \<open>min 100 (rows of the table) + 1\<close>, hence at most 101, all counters zero, name "Unknown".
  The witness is a table of 101 rows in which the user has a row with one win.
\<close>

theorem rank_scan_limited_to_100:
  assumes "\<forall>r \<in> set (take 100 (sort_key rank_key (map select_columns table))). user_id r \<noteq> uid"
  shows "get_user_rank (Inr table) uid =
           \<lparr>rs_username = ''Unknown'',
            rs_rank = int (min 100 (length table)) + 1,
            rs_total_users = int (min 100 (length table)),
            rs_total_played = 0, rs_wins = 0, rs_losses = 0, rs_win_percent = IntV 0,
            rs_rounds_played = 0, rs_eliminations = 0, rs_total_score = 0, rs_penalties = 0\<rparr> \<and>
         rs_rank (get_user_rank (Inr table) uid) \<le> 101"
proof -
  have o: "get_all_users_sorted (Inr table) 100 =
           take 100 (sort_key rank_key (map select_columns table))"
    by (simp add: get_all_users_sorted_def query_users_sorted_def limit_rows_def)
  have l: "length (get_all_users_sorted (Inr table) 100) = min 100 (length table)"
    unfolding o by (simp add: min.commute)
  have "get_user_rank (Inr table) uid = not_in_list (int (min 100 (length table)))"
    using get_user_rank_absent [of "Inr table" uid] assms unfolding o [symmetric] l by simp
  then show ?thesis by (simp add: not_in_list_def)
qed

theorem rank_scan_limited_to_100_witness:
  "(\<exists>r \<in> set big_table. user_id r = 101 \<and> wins r = Some 1) \<and>
   rs_rank (get_user_rank (Inr big_table) 101) = 101 \<and>
   rs_wins (get_user_rank (Inr big_table) 101) = 0 \<and>
   rs_username (get_user_rank (Inr big_table) 101) = ''Unknown''"
proof -
  have l: "length big_table = 101" by (simp add: big_table_def)
  have "sample_row 101 ''u'' ''U'' 1 1 99 \<in> set big_table"
    by (auto simp: big_table_def intro!: image_eqI [of _ _ 101])
  then have e: "\<exists>r \<in> set big_table. user_id r = 101 \<and> wins r = Some 1"
    by (rule bexI [rotated]) (simp add: sample_row_def)
  from rank_scan_limited_to_100 [OF big_table_cut] e show ?thesis
    by (simp add: l)
qed

section \<open>Properties of the display names\<close>

lemma or_str_blank: "blank x \<Longrightarrow> or_str x d = d"
  by (auto simp: blank_def or_str_def split: option.splits)

lemma or_str_present: "x = Some s \<Longrightarrow> s \<noteq> [] \<Longrightarrow> or_str x d = s"
  by (simp add: or_str_def)

lemma not_blank_iff: "\<not> blank x \<longleftrightarrow> (\<exists>s. x = Some s \<and> s \<noteq> [])"
  by (auto simp: blank_def split: option.splits)

lemma entry_name_chain:
  "e_display_name (render_entry v i r) = html_escape (chain_first_name_username r)"
proof -
  have "or_str (first_name r) (or_str (username r) ''Unknown'') = chain_first_name_username r"
    by (auto simp: chain_first_name_username_def or_str_def blank_def split: option.splits)
  then show ?thesis by (simp add: render_entry_def Let_def)
qed

lemma sample_ordering_id: "get_all_users_sorted (Inr sample_users) 100 = sample_users"
  by code_simp

text \<open>
  C7, as stated, fails: the three places do not share one chain. The rank summary of the
  user with \<^verbatim>\<open>username = "ann"\<close> and \<^verbatim>\<open>first_name = "Ann"\<close> names them \<^verbatim>\<open>ann\<close>, where the
  chain \<^verbatim>\<open>first_name\<close>, \<^verbatim>\<open>username\<close>, \<^verbatim>\<open>"Unknown"\<close> gives \<^verbatim>\<open>Ann\<close>.
\<close>

theorem display_name_counterexample:
  "user_id (get_all_users_sorted (Inr sample_users) 100 ! 0) = 11 \<and>
   rs_username (get_user_rank (Inr sample_users) 11) = ''ann'' \<and>
   chain_first_name_username (get_all_users_sorted (Inr sample_users) 100 ! 0) = ''Ann'' \<and>
   rs_username (get_user_rank (Inr sample_users) 11) \<noteq>
     chain_first_name_username (get_all_users_sorted (Inr sample_users) 100 ! 0)"
  by code_simp

text \<open>
  C7, amended: a page entry shows the escaped name resolved by \<^verbatim>\<open>first_name\<close>, then
  \<^verbatim>\<open>username\<close>, then \<^verbatim>\<open>"Unknown"\<close>; the "your rank" block and the rank summary resolve the
  name of the first row with the user's id the other way round: \<^verbatim>\<open>username\<close> if it is not
  empty, otherwise \<^verbatim>\<open>first_name\<close> if it is not empty, otherwise \<^verbatim>\<open>"Unknown"\<close> (escaped in
  the block, as it is in the summary).
\<close>

theorem display_name_orders:
  "e_display_name (render_entry viewer_id i r) = html_escape (chain_first_name_username r) \<and>
   (\<forall>k < length all_users.
      user_id (all_users ! k) = viewer_id \<and> (\<forall>j<k. user_id (all_users ! j) \<noteq> viewer_id) \<longrightarrow>
        (\<forall>u. username (all_users ! k) = Some u \<and> u \<noteq> [] \<longrightarrow>
             y_name (your_rank_block all_users viewer_id n) = html_escape u) \<and>
        (\<forall>f. blank (username (all_users ! k)) \<and> first_name (all_users ! k) = Some f \<and> f \<noteq> [] \<longrightarrow>
             y_name (your_rank_block all_users viewer_id n) = html_escape f) \<and>
        (blank (username (all_users ! k)) \<and> blank (first_name (all_users ! k)) \<longrightarrow>
             y_name (your_rank_block all_users viewer_id n) = ''Unknown'')) \<and>
   (\<forall>k < length (get_all_users_sorted st 100).
      user_id (get_all_users_sorted st 100 ! k) = uid \<and>
      (\<forall>j<k. user_id (get_all_users_sorted st 100 ! j) \<noteq> uid) \<longrightarrow>
        (\<forall>u. username (get_all_users_sorted st 100 ! k) = Some u \<and> u \<noteq> [] \<longrightarrow>
             rs_username (get_user_rank st uid) = u) \<and>
        (\<forall>f. blank (username (get_all_users_sorted st 100 ! k)) \<and>
             first_name (get_all_users_sorted st 100 ! k) = Some f \<and> f \<noteq> [] \<longrightarrow>
             rs_username (get_user_rank st uid) = f) \<and>
        (blank (username (get_all_users_sorted st 100 ! k)) \<and>
         blank (first_name (get_all_users_sorted st 100 ! k)) \<longrightarrow>
             rs_username (get_user_rank st uid) = ''Unknown''))"
proof (intro conjI allI impI)
  show "e_display_name (render_entry viewer_id i r) = html_escape (chain_first_name_username r)"
    by (rule entry_name_chain)
next
  fix k
  assume k: "k < length all_users"
    and m: "user_id (all_users ! k) = viewer_id \<and> (\<forall>j<k. user_id (all_users ! j) \<noteq> viewer_id)"
  have ex: "\<exists>r \<in> set all_users. user_id r = viewer_id" using k m by (auto intro: bexI [of _ "all_users ! k"])
  from your_rank_block_present [OF ex, of n] obtain k' where k': "k' < length all_users"
    "user_id (all_users ! k') = viewer_id" "\<forall>j<k'. user_id (all_users ! j) \<noteq> viewer_id"
    and b: "y_name (your_rank_block all_users viewer_id n) =
       html_escape (or_str (username (all_users ! k')) (or_str (first_name (all_users ! k')) ''Unknown''))"
    by force
  have "k' = k" using k k' m by (metis linorder_neqE_nat)
  then have y: "y_name (your_rank_block all_users viewer_id n) =
       html_escape (or_str (username (all_users ! k)) (or_str (first_name (all_users ! k)) ''Unknown''))"
    using b by simp
  show "y_name (your_rank_block all_users viewer_id n) = html_escape u"
    if "username (all_users ! k) = Some u \<and> u \<noteq> []" for u
    using that y by (simp add: or_str_present)
  show "y_name (your_rank_block all_users viewer_id n) = html_escape f"
    if "blank (username (all_users ! k)) \<and> first_name (all_users ! k) = Some f \<and> f \<noteq> []" for f
    using that y by (simp add: or_str_present or_str_blank)
  show "y_name (your_rank_block all_users viewer_id n) = ''Unknown''"
    if "blank (username (all_users ! k)) \<and> blank (first_name (all_users ! k))"
    using that y by (simp add: or_str_blank html_escape_Unknown)
next
  fix k
  assume k: "k < length (get_all_users_sorted st 100)"
    and m: "user_id (get_all_users_sorted st 100 ! k) = uid \<and>
      (\<forall>j<k. user_id (get_all_users_sorted st 100 ! j) \<noteq> uid)"
  have g: "rs_username (get_user_rank st uid) =
      or_str (username (get_all_users_sorted st 100 ! k))
        (or_str (first_name (get_all_users_sorted st 100 ! k)) ''Unknown'')"
    using get_user_rank_found [of k st uid] k m by (simp add: summary_of_row_def Let_def)
  show "rs_username (get_user_rank st uid) = u"
    if "username (get_all_users_sorted st 100 ! k) = Some u \<and> u \<noteq> []" for u
    using that g by (simp add: or_str_present)
  show "rs_username (get_user_rank st uid) = f"
    if "blank (username (get_all_users_sorted st 100 ! k)) \<and>
        first_name (get_all_users_sorted st 100 ! k) = Some f \<and> f \<noteq> []" for f
    using that g by (simp add: or_str_present or_str_blank)
  show "rs_username (get_user_rank st uid) = ''Unknown''"
    if "blank (username (get_all_users_sorted st 100 ! k)) \<and>
        blank (first_name (get_all_users_sorted st 100 ! k))"
    using that g by (simp add: or_str_blank)
qed

theorem display_name_orders_witness:
  "e_display_name (render_entry 11 1 (sample_users ! 0)) = ''Ann'' \<and>
   y_name (your_rank_block sample_users 11 3) = ''ann'' \<and>
   rs_username (get_user_rank (Inr sample_users) 11) = ''ann''"
proof -
  note t = display_name_orders [where viewer_id = 11 and i = 1 and r = "sample_users ! 0"
      and all_users = sample_users and n = 3 and st = "Inr sample_users" and uid = 11,
      unfolded sample_ordering_id]
  have k: "(0::nat) < length sample_users" by (simp add: sample_users_def)
  have m: "user_id (sample_users ! 0) = 11 \<and> (\<forall>j<0. user_id (sample_users ! j) \<noteq> 11)"
    by (simp add: sample_users_def sample_row_def)
  have u: "username (sample_users ! 0) = Some ''ann'' \<and> ''ann'' \<noteq> []"
    by (simp add: sample_users_def sample_row_def)
  have e: "html_escape ''ann'' = ''ann''" "html_escape (chain_first_name_username (sample_users ! 0)) = ''Ann''"
    by (simp_all add: html_escape_def escape_char_def chain_first_name_username_def blank_def
        sample_users_def sample_row_def)
  from t [THEN conjunct1] e(2)
  have a: "e_display_name (render_entry 11 1 (sample_users ! 0)) = ''Ann''" by simp
  from t [THEN conjunct2, THEN conjunct1, rule_format, OF k m, THEN conjunct1, rule_format, OF u] e(1)
  have b: "y_name (your_rank_block sample_users 11 3) = ''ann''" by simp
  from t [THEN conjunct2, THEN conjunct2, rule_format, OF k m, THEN conjunct1, rule_format, OF u]
  have c: "rs_username (get_user_rank (Inr sample_users) 11) = ''ann''" .
  show ?thesis by (intro conjI) (fact a, fact b, fact c)
qed

section \<open>Properties of the daily rank\<close>

lemma py_index_first:
  "k < length xs \<Longrightarrow> xs ! k = x \<Longrightarrow> (\<forall>j<k. xs ! j \<noteq> x) \<Longrightarrow> py_index xs x = Inr (int k)"
proof (induction xs arbitrary: k)
  case Nil
  then show ?case by simp
next
  case (Cons y ys)
  show ?case
  proof (cases k)
    case 0
    with Cons.prems show ?thesis by simp
  next
    case (Suc k')
    with Cons.prems have "y \<noteq> x" by auto
    moreover have "py_index ys x = Inr (int k')"
      using Cons.prems Suc by (intro Cons.IH) auto
    ultimately show ?thesis using Suc by simp
  qed
qed

text \<open>
  C6, as stated, fails: the report sorts the daily snapshot by \<^verbatim>\<open>total_score\<close> alone. In
  the snapshot of user 1 (2 wins, score 10) and user 2 (1 win, score 20), user 1 is first
  under wins-then-score and gets the daily rank 2.
\<close>

theorem daily_rank_counterexample:
  "map_sum id ds_rank (userinfo_daily daily_example 1) = Inr 2 \<and>
   position_by_wins_then_score daily_example 1 = 1"
  by code_simp

text \<open>
  C6, amended: whenever the report is produced, the daily rank of a user is their 1-based
  position (the first row with their id) in the daily snapshot sorted by \<^verbatim>\<open>total_score\<close>
  descending, rows of equal score keeping their order in the snapshot; it is 0 for a user
  with no row in the snapshot.
\<close>

theorem daily_rank_by_score:
  assumes "userinfo_daily daily_users uid = Inr d"
  shows "\<exists>ys. mset ys = mset daily_users \<and>
           sorted_wrt (\<lambda>a b. or_int (total_score b) 0 \<le> or_int (total_score a) 0) ys \<and>
           (\<forall>s. filter (\<lambda>r. or_int (total_score r) 0 = s) ys =
                filter (\<lambda>r. or_int (total_score r) 0 = s) daily_users) \<and>
           ((\<forall>r \<in> set daily_users. user_id r \<noteq> uid) \<longrightarrow> ds_rank d = 0) \<and>
           ((\<exists>r \<in> set daily_users. user_id r = uid) \<longrightarrow>
              (\<exists>k < length ys. user_id (ys ! k) = uid \<and> (\<forall>j<k. user_id (ys ! j) \<noteq> uid) \<and>
                 ds_rank d = int k + 1))"
proof -
  let ?key = "\<lambda>r. - or_int (total_score r) 0"
  let ?ys = "sort_key ?key daily_users"
  have s: "sorted_by_score_desc daily_users = Inr ?ys"
    using assms by (auto simp: userinfo_daily_def sorted_by_score_desc_def split: if_splits)
  have 1: "mset ?ys = mset daily_users" by simp
  have "sorted (map ?key ?ys)" by (rule sorted_sort_key)
  then have 2: "sorted_wrt (\<lambda>a b. or_int (total_score b) 0 \<le> or_int (total_score a) 0) ?ys"
    by (simp add: sorted_map)
  have 3: "filter (\<lambda>r. or_int (total_score r) 0 = s) ?ys =
           filter (\<lambda>r. or_int (total_score r) 0 = s) daily_users" for s
    using sort_key_stable [of ?key "- s" daily_users] by simp
  have 4: "ds_rank d = 0" if "\<forall>r \<in> set daily_users. user_id r \<noteq> uid"
  proof -
    from that have "find (\<lambda>r. user_id r = uid) ?ys = None" by (simp add: find_None_iff)
    with assms s show ?thesis by (auto simp: userinfo_daily_def)
  qed
  have 5: "\<exists>k < length ?ys. user_id (?ys ! k) = uid \<and> (\<forall>j<k. user_id (?ys ! j) \<noteq> uid) \<and>
                 ds_rank d = int k + 1"
    if "\<exists>r \<in> set daily_users. user_id r = uid"
  proof -
    from that obtain row where f: "find (\<lambda>r. user_id r = uid) ?ys = Some row"
      by (cases "find (\<lambda>r. user_id r = uid) ?ys") (auto simp: find_None_iff)
    then obtain k where k: "k < length ?ys" "user_id (?ys ! k) = uid" "row = ?ys ! k"
      "\<forall>j<k. user_id (?ys ! j) \<noteq> uid"
      by (auto simp: find_Some_iff)
    have "\<forall>j<k. ?ys ! j \<noteq> row" using k by auto
    with k have i: "py_index ?ys row = Inr (int k)" by (intro py_index_first) auto
    from assms have "ds_rank d = int k + 1"
      unfolding userinfo_daily_def s sum.case f option.case i
      by (auto split: sum.splits)
    with k show ?thesis by blast
  qed
  from 1 2 3 4 5 show ?thesis by blast
qed

theorem daily_rank_by_score_witness:
  "\<exists>d. userinfo_daily daily_example 1 = Inr d \<and> ds_rank d = 2 \<and>
     (\<exists>ys. sorted_wrt (\<lambda>a b. or_int (total_score b) 0 \<le> or_int (total_score a) 0) ys \<and>
        mset ys = mset daily_example \<and> user_id (ys ! 1) = 1)"
proof -
  have e: "userinfo_daily daily_example 1 =
      Inr \<lparr>ds_rank = 2, ds_games = Some 3, ds_wins = Some 2, ds_losses = Some 1,
           ds_score = Some 10, ds_pen = Some 0, ds_win_pct = Round1 2 3\<rparr>"
    by code_simp
  have p: "\<exists>r \<in> set daily_example. user_id r = 1"
    by (simp add: daily_example_def sample_row_def)
  from daily_rank_by_score [OF e] obtain ys where
    ys: "mset ys = mset daily_example"
    "sorted_wrt (\<lambda>a b. or_int (total_score b) 0 \<le> or_int (total_score a) 0) ys"
    and r: "(\<exists>r \<in> set daily_example. user_id r = 1) \<longrightarrow>
              (\<exists>k < length ys. user_id (ys ! k) = 1 \<and> (\<forall>j<k. user_id (ys ! j) \<noteq> 1) \<and>
                 ds_rank \<lparr>ds_rank = 2, ds_games = Some 3, ds_wins = Some 2, ds_losses = Some 1,
           ds_score = Some 10, ds_pen = Some 0, ds_win_pct = Round1 2 3\<rparr> = int k + 1)"
    by blast
  from r p obtain k where "user_id (ys ! k) = 1" "(2::int) = int k + 1" by auto
  then have "user_id (ys ! 1) = 1" by (cases "k = 1") auto
  with ys e show ?thesis by auto
qed

section \<open>Properties of the page-action handlers\<close>

lemma py_int_error: "py_int s = Inl e \<Longrightarrow> e = ValueError"
  by (auto simp: py_int_def Let_def split: option.splits prod.splits)

lemma edit_page_spec:
  "\<exists>text total_pages.
     build_leaderboard_text us page PER_PAGE v =
       Inr (text, total_pages, max 1 (min page total_pages)) \<and>
     edit_page us prefix v page =
       Edited text (build_pager_old (max 1 (min page total_pages)) total_pages prefix)"
proof -
  have pp: "PER_PAGE \<noteq> 0" by (simp add: PER_PAGE_def)
  show ?thesis unfolding edit_page_def build_raw [OF pp] by simp
qed

lemma edit_page_Edited: "\<exists>t p. edit_page us prefix v page = Edited t p"
  using edit_page_spec [of us page v prefix] by blast

lemma edit_page_not_Ignored: "edit_page us prefix v page \<noteq> Ignored"
  using edit_page_Edited [of us prefix v page] by auto

lemma edit_page_not_Raised: "edit_page us prefix v page \<noteq> Raised e"
  using edit_page_Edited [of us prefix v page] by auto

lemma code_points_append: "code_points (a @ b) = code_points a @ code_points b"
  by (simp add: code_points_def)

lemma split_leaderboard:
  "py_split 95 1 (code_points ''leaderboard_'' @ rest) = [code_points ''leaderboard'', rest]"
  by (simp add: code_points_def)

lemma split_daily_leaderboard:
  "py_split 95 2 (code_points ''daily_leaderboard_'' @ rest) =
     [code_points ''daily'', code_points ''leaderboard'', rest]"
  by (simp add: code_points_def numeral_2_eq_2)

lemma startswith_append: "startswith s p \<longleftrightarrow> s = p @ drop (length p) s"
  unfolding startswith_def by (metis append_take_drop_id append_eq_conv_conj)

lemma leaderboard_callback_cases:
  fixes query_data :: "ustring option"
  defines "data \<equiv> py_strip (case query_data of None \<Rightarrow> [] | Some d \<Rightarrow> d)"
  shows "leaderboard_callback st v query_data =
           (if \<not> startswith data (code_points ''leaderboard_'') then Ignored
            else case py_int (drop 12 data) of
                   Inl e \<Rightarrow> Ignored
                 | Inr page \<Rightarrow> edit_leaderboard_page st v page)"
proof (cases "startswith data (code_points ''leaderboard_'')")
  case False
  then show ?thesis by (simp add: leaderboard_callback_def data_def [symmetric] Let_def)
next
  case True
  have len: "length (code_points ''leaderboard_'') = 12" by (simp add: code_points_def)
  from True have "data = code_points ''leaderboard_'' @ drop (length (code_points ''leaderboard_'')) data"
    using startswith_append by blast
  then have d: "data = code_points ''leaderboard_'' @ drop 12 data" by (simp only: len)
  have sp: "item (py_split 95 1 data) 1 = Inr (drop 12 data)"
    by (subst d) (simp only: split_leaderboard, simp add: item_def)
  have ed: "(case edit_leaderboard_page st v page of Raised e \<Rightarrow> caught e | done \<Rightarrow> done) =
            edit_leaderboard_page st v page" for page
    using edit_page_Edited [of "get_all_users_sorted st 100" "''leaderboard''" v page]
    by (auto simp: edit_leaderboard_page_def)
  have ca: "caught e = Ignored" if "py_int (drop 12 data) = Inl e" for e
    using py_int_error [OF that] by (simp add: caught_def)
  show ?thesis
    unfolding leaderboard_callback_def data_def [symmetric] Let_def sp
    using True ca by (simp add: ed split: sum.split)
qed

lemma daily_leaderboard_callback_cases:
  fixes query_data :: "ustring option"
  defines "data \<equiv> py_strip (case query_data of None \<Rightarrow> [] | Some d \<Rightarrow> d)"
  shows "daily_leaderboard_callback daily v query_data =
           (if \<not> startswith data (code_points ''daily_leaderboard_'') then Ignored
            else case py_int (drop 18 data) of
                   Inl e \<Rightarrow> Ignored
                 | Inr page \<Rightarrow> edit_daily_leaderboard_page daily v page)"
proof (cases "startswith data (code_points ''daily_leaderboard_'')")
  case False
  then show ?thesis by (simp add: daily_leaderboard_callback_def data_def [symmetric] Let_def)
next
  case True
  have len: "length (code_points ''daily_leaderboard_'') = 18" by (simp add: code_points_def)
  from True have "data = code_points ''daily_leaderboard_'' @
      drop (length (code_points ''daily_leaderboard_'')) data"
    using startswith_append by blast
  then have d: "data = code_points ''daily_leaderboard_'' @ drop 18 data" by (simp only: len)
  have sp: "item (py_split 95 2 data) 2 = Inr (drop 18 data)"
    by (subst d) (simp only: split_daily_leaderboard, simp add: item_def)
  have ed: "(case edit_daily_leaderboard_page daily v page of Raised e \<Rightarrow> caught e | done \<Rightarrow> done) =
            edit_daily_leaderboard_page daily v page" for page
    using edit_page_Edited [of daily "''daily_leaderboard''" v page]
    by (auto simp: edit_daily_leaderboard_page_def)
  have ca: "caught e = Ignored" if "py_int (drop 18 data) = Inl e" for e
    using py_int_error [OF that] by (simp add: caught_def)
  show ?thesis
    unfolding daily_leaderboard_callback_def data_def [symmetric] Let_def sp
    using True ca by (simp add: ed split: sum.split)
qed

lemma accepted_leaderboard:
  "accepted ''leaderboard'' data \<longleftrightarrow>
     startswith data (code_points ''leaderboard_'') \<and>
     (case py_int (drop 12 data) of Inl e \<Rightarrow> False | Inr n \<Rightarrow> True)"
proof -
  have "length ''leaderboard'' + 1 = 12" "length (code_points ''leaderboard_'') = 12"
    "''leaderboard'' @ ''_'' = ''leaderboard_''"
    by (simp_all add: code_points_def)
  then show ?thesis unfolding accepted_def startswith_def by (simp only:)
qed

lemma accepted_daily_leaderboard:
  "accepted ''daily_leaderboard'' data \<longleftrightarrow>
     startswith data (code_points ''daily_leaderboard_'') \<and>
     (case py_int (drop 18 data) of Inl e \<Rightarrow> False | Inr n \<Rightarrow> True)"
proof -
  have "length ''daily_leaderboard'' + 1 = 18" "length (code_points ''daily_leaderboard_'') = 18"
    "''daily_leaderboard'' @ ''_'' = ''daily_leaderboard_''"
    by (simp_all add: code_points_def)
  then show ?thesis unfolding accepted_def startswith_def by (simp only:)
qed

text \<open>The decimal numeral that \<^verbatim>\<open>str\<close> writes is read back by \<^verbatim>\<open>int\<close>.\<close>

lemma digit_char_code: "d < 10 \<Longrightarrow> of_char (digit_char d) = 48 + d"
proof -
  assume "d < 10"
  then have "d \<in> {0, 1, 2, 3, 4, 5, 6, 7, 8, 9}" by auto
  then show ?thesis by (auto simp: digit_char_def)
qed

lemma to_decimal_ascii: "d < 10 \<Longrightarrow> to_decimal (48 + d) = Some d"
  by (simp add: to_decimal_def decimal_runs_def)

lemma ascii_digit_value: "ascii_digit c \<Longrightarrow> to_decimal c = Some (c - 48)"
proof -
  assume "ascii_digit c"
  then have "c - 48 < 10" "48 + (c - 48) = c" by (auto simp: ascii_digit_def)
  with to_decimal_ascii [of "c - 48"] show ?thesis by simp
qed

lemma digits_append:
  "\<forall>c \<in> set xs. ascii_digit c \<Longrightarrow>
   digits acc b (xs @ ys) =
     digits (foldl (\<lambda>a c. 10 * a + (c - 48)) acc xs) (b \<or> xs \<noteq> []) ys"
proof (induction xs arbitrary: acc b)
  case Nil
  show ?case by simp
next
  case (Cons x xs)
  then have "to_decimal x = Some (x - 48)" "\<forall>c \<in> set xs. ascii_digit c"
    by (simp_all add: ascii_digit_value)
  with Cons.IH [of "10 * acc + (x - 48)" True] show ?case by simp
qed

lemma str_nat_digits: "\<forall>c \<in> set (code_points (str_nat n)). ascii_digit c"
proof (induction n rule: str_nat.induct)
  case (1 n)
  show ?case
  proof (cases "n < 10")
    case True
    then show ?thesis
      by (subst str_nat.simps) (simp add: code_points_def digit_char_code ascii_digit_def)
  next
    case False
    have "n mod 10 < 10" by simp
    then have "ascii_digit (of_char (digit_char (n mod 10)))"
      by (simp add: digit_char_code ascii_digit_def)
    with False 1 show ?thesis by (subst str_nat.simps) (simp add: code_points_def)
  qed
qed

lemma str_nat_value: "foldl (\<lambda>a c. 10 * a + (c - 48)) 0 (code_points (str_nat n)) = n"
proof (induction n rule: str_nat.induct)
  case (1 n)
  show ?case
  proof (cases "n < 10")
    case True
    then show ?thesis by (subst str_nat.simps) (simp add: code_points_def digit_char_code)
  next
    case False
    have "n mod 10 < 10" by simp
    then have "of_char (digit_char (n mod 10)) = 48 + n mod 10" by (rule digit_char_code)
    with False 1 show ?thesis by (subst str_nat.simps) (simp add: code_points_def)
  qed
qed

lemma str_nat_nonempty: "code_points (str_nat n) \<noteq> []"
  by (subst str_nat.simps) (simp add: code_points_def)

lemma digits_str_nat: "digits 0 False (code_points (str_nat n)) = Some n"
  using digits_append [OF str_nat_digits, of 0 False n "[]"]
  by (simp add: str_nat_value str_nat_nonempty)

lemma digit_not_other:
  "ascii_digit c \<Longrightarrow> \<not> is_int_space c \<and> \<not> is_space c \<and> c \<noteq> 45 \<and> c \<noteq> 43"
  by (auto simp: ascii_digit_def is_int_space_def is_space_def)

lemma strip_id:
  assumes "s \<noteq> []" "\<not> P (hd s)" "\<not> P (last s)"
  shows "rev (dropWhile P (rev (dropWhile P s))) = s"
proof -
  from assms have 1: "dropWhile P s = s" by (cases s) simp_all
  from assms have "rev s \<noteq> []" "\<not> P (hd (rev s))" by (simp_all add: hd_rev)
  then have "dropWhile P (rev s) = rev s" by (cases "rev s") simp_all
  with 1 show ?thesis by simp
qed

lemma str_nat_ends:
  "ascii_digit (hd (code_points (str_nat n)))" "ascii_digit (last (code_points (str_nat n)))"
  using str_nat_digits [of n] str_nat_nonempty [of n] by simp_all

lemma py_int_str_nat: "py_int (code_points (str_nat n)) = Inr (int n)"
proof -
  let ?s = "code_points (str_nat n)"
  have t: "rev (dropWhile is_int_space (rev (dropWhile is_int_space ?s))) = ?s"
    using str_nat_nonempty str_nat_ends digit_not_other by (intro strip_id) auto
  obtain c cs where s: "?s = c # cs" using str_nat_nonempty [of n] by (cases ?s) auto
  then have "ascii_digit c" using str_nat_ends(1) [of n] by simp
  then have c: "c \<noteq> 45" "c \<noteq> 43" using digit_not_other by auto
  have d: "digits 0 False (c # cs) = Some n" using digits_str_nat [of n] s by simp
  show ?thesis
    unfolding py_int_def t Let_def unfolding s using c d by simp
qed

lemma py_int_minus_str_nat: "py_int (45 # code_points (str_nat n)) = Inr (- int n)"
proof -
  let ?s = "code_points (str_nat n)"
  have "\<not> is_int_space 45" by (simp add: is_int_space_def)
  moreover have "\<not> is_int_space (last (45 # ?s))"
    using str_nat_nonempty [of n] str_nat_ends(2) [of n] digit_not_other by simp
  ultimately have t: "rev (dropWhile is_int_space (rev (dropWhile is_int_space (45 # ?s)))) = 45 # ?s"
    by (intro strip_id) simp_all
  show ?thesis
    unfolding py_int_def t Let_def by (simp add: digits_str_nat)
qed

lemma code_points_py_str:
  "code_points (py_str i) =
     (if i < 0 then 45 # code_points (str_nat (nat (- i))) else code_points (str_nat (nat i)))"
  by (simp add: py_str_def code_points_def)

lemma py_int_py_str: "py_int (code_points (py_str i)) = Inr i"
  by (simp add: code_points_py_str py_int_str_nat py_int_minus_str_nat)

lemma py_str_last:
  "code_points (py_str i) \<noteq> [] \<and> \<not> is_space (last (code_points (py_str i)))"
  using str_nat_nonempty [of "nat i"] str_nat_nonempty [of "nat (- i)"]
    str_nat_ends(2) [of "nat i"] str_nat_ends(2) [of "nat (- i)"] digit_not_other
  by (auto simp: code_points_py_str)

lemma py_strip_leaderboard_token:
  "py_strip (code_points (''leaderboard_'' @ py_str n)) =
     code_points ''leaderboard_'' @ code_points (py_str n)"
  unfolding py_strip_def code_points_append
  using py_str_last [of n] by (intro strip_id) (simp_all add: is_space_def code_points_def)

lemma py_strip_daily_leaderboard_token:
  "py_strip (code_points (''daily_leaderboard_'' @ py_str n)) =
     code_points ''daily_leaderboard_'' @ code_points (py_str n)"
  unfolding py_strip_def code_points_append
  using py_str_last [of n] by (intro strip_id) (simp_all add: is_space_def code_points_def)

lemma is_numeral_iff: "is_numeral s \<longleftrightarrow> (\<exists>n. s = code_points (py_str n))"
  by (auto simp: is_numeral_def py_int_py_str split: sum.splits)

lemma matches_grammar_iff:
  "matches_grammar prefix token \<longleftrightarrow> (\<exists>n. token = code_points (prefix @ ''_'' @ py_str n))"
proof
  assume "matches_grammar prefix token"
  then obtain n where t: "take (length prefix + 1) token = code_points (prefix @ ''_'')"
    and d: "drop (length prefix + 1) token = code_points (py_str n)"
    unfolding matches_grammar_def is_numeral_iff by blast
  have "token = take (length prefix + 1) token @ drop (length prefix + 1) token" by simp
  then have "token = code_points (prefix @ ''_'' @ py_str n)"
    unfolding t d by (simp add: code_points_def)
  then show "\<exists>n. token = code_points (prefix @ ''_'' @ py_str n)" ..
next
  assume "\<exists>n. token = code_points (prefix @ ''_'' @ py_str n)"
  then obtain n where "token = code_points (prefix @ ''_'' @ py_str n)" ..
  then have "take (length prefix + 1) token = code_points (prefix @ ''_'')"
    "drop (length prefix + 1) token = code_points (py_str n)"
    by (simp_all add: code_points_def)
  then show "matches_grammar prefix token"
    unfolding matches_grammar_def is_numeral_iff by blast
qed

lemma leaderboard_callback_rest:
  assumes "py_strip (case query_data of None \<Rightarrow> [] | Some d \<Rightarrow> d) =
             code_points ''leaderboard_'' @ rest"
    and "py_int rest = Inr n"
  shows "leaderboard_callback st v query_data = edit_leaderboard_page st v n"
proof -
  have "length (code_points ''leaderboard_'') = 12" by (simp add: code_points_def)
  then have "startswith (code_points ''leaderboard_'' @ rest) (code_points ''leaderboard_'')"
    "drop 12 (code_points ''leaderboard_'' @ rest) = rest"
    by (simp_all add: startswith_def)
  then show ?thesis
    unfolding leaderboard_callback_cases assms(1) using assms(2) by simp
qed

lemma daily_leaderboard_callback_rest:
  assumes "py_strip (case query_data of None \<Rightarrow> [] | Some d \<Rightarrow> d) =
             code_points ''daily_leaderboard_'' @ rest"
    and "py_int rest = Inr n"
  shows "daily_leaderboard_callback daily v query_data = edit_daily_leaderboard_page daily v n"
proof -
  have "length (code_points ''daily_leaderboard_'') = 18" by (simp add: code_points_def)
  then have "startswith (code_points ''daily_leaderboard_'' @ rest)
      (code_points ''daily_leaderboard_'')"
    "drop 18 (code_points ''daily_leaderboard_'' @ rest) = rest"
    by (simp_all add: startswith_def)
  then show ?thesis
    unfolding daily_leaderboard_callback_cases assms(1) using assms(2) by simp
qed

lemma sample_single_page:
  "build_leaderboard_text sample_users 2 PER_PAGE 11 =
     Inr ([Title, Entry 1 Gold True ''Ann'' 11 4 (Round1 3 4) 3 1 30 0,
           Entry 2 Silver False ''bob'' 12 4 (Round1 2 4) 2 2 25 0,
           Entry 3 Bronze False ''Unknown'' 13 0 (IntV 0) 0 0 0 0], 1, 1)"
  by code_simp

text \<open>
  C9, as stated, fails: the handlers test the token after \<^verbatim>\<open>.strip()\<close>, and \<^verbatim>\<open>int\<close>
  reads more than plain numerals. The token \<^verbatim>\<open>" leaderboard_2"\<close> does not begin with the
  prefix, so it is not of the form \<^verbatim>\<open>{prefix}_{integer}\<close>, and yet the press is not
  ignored: the message is edited to the requested page.
\<close>

theorem padded_token_not_ignored:
  "\<not> startswith (code_points '' leaderboard_2'') (code_points ''leaderboard_'') \<and>
   \<not> matches_grammar ''leaderboard'' (code_points '' leaderboard_2'') \<and>
   leaderboard_callback (Inr sample_users) 11 (Some (code_points '' leaderboard_2'')) =
     edit_leaderboard_page (Inr sample_users) 11 2 \<and>
   leaderboard_callback (Inr sample_users) 11 (Some (code_points '' leaderboard_2'')) \<noteq> Ignored"
proof -
  have a: "\<not> startswith (code_points '' leaderboard_2'') (code_points ''leaderboard_'')"
    by (simp add: startswith_def code_points_def)
  have b: "\<not> matches_grammar ''leaderboard'' (code_points '' leaderboard_2'')"
    by (simp add: matches_grammar_def code_points_def)
  have s: "py_strip (case Some (code_points '' leaderboard_2'') of None \<Rightarrow> [] | Some d \<Rightarrow> d) =
           code_points ''leaderboard_'' @ [50]"
    by (simp add: py_strip_def code_points_def is_space_def)
  have i: "py_int [50] = Inr 2"
    by (simp add: py_int_def is_int_space_def to_decimal_def decimal_runs_def)
  have c: "leaderboard_callback (Inr sample_users) 11 (Some (code_points '' leaderboard_2'')) =
     edit_leaderboard_page (Inr sample_users) 11 2"
    using s i by (rule leaderboard_callback_rest)
  have d: "leaderboard_callback (Inr sample_users) 11 (Some (code_points '' leaderboard_2'')) \<noteq>
     Ignored"
    unfolding c edit_leaderboard_page_def by (rule edit_page_not_Ignored)
  show ?thesis by (intro conjI) (fact a, fact b, fact c, fact d)
qed

text \<open>
  C9, amended. Let the token be the pressed button's data with the white space at both
  ends removed (absent data counts as empty). A handler only acknowledges the press
  exactly when the token is not its prefix, an underscore and a text that \<^verbatim>\<open>int\<close> reads as
  an integer. When the token is of that form, with the integer \<open>n\<close>, the handler edits the
  message to the text that the renderer returns for page \<open>n\<close> of the ordering (the first
  100 users, or the daily snapshot) with five entries per page, and to the pager of the
  clamped page \<open>max 1 (min n total_pages)\<close>. The tokens of the claim's grammar are the
  prefix, an underscore and the numeral \<^verbatim>\<open>str\<close> writes for an integer \<open>m\<close>; each of them
  edits the message to page \<open>m\<close>, clamped. No exception leaves either handler.
\<close>

theorem page_action_ignored:
  fixes query_data :: "ustring option"
  defines "token \<equiv> py_strip (case query_data of None \<Rightarrow> [] | Some d \<Rightarrow> d)"
  shows
    "(leaderboard_callback st v query_data = Ignored \<longleftrightarrow> \<not> accepted ''leaderboard'' token) \<and>
     (daily_leaderboard_callback daily v query_data = Ignored \<longleftrightarrow>
        \<not> accepted ''daily_leaderboard'' token) \<and>
     (\<forall>rest n. token = code_points ''leaderboard_'' @ rest \<and> py_int rest = Inr n \<longrightarrow>
        (\<exists>text total_pages.
           build_leaderboard_text (get_all_users_sorted st 100) n PER_PAGE v =
             Inr (text, total_pages, max 1 (min n total_pages)) \<and>
           leaderboard_callback st v query_data =
             Edited text (build_pager_old (max 1 (min n total_pages)) total_pages
                            ''leaderboard''))) \<and>
     (\<forall>rest n. token = code_points ''daily_leaderboard_'' @ rest \<and> py_int rest = Inr n \<longrightarrow>
        (\<exists>text total_pages.
           build_leaderboard_text daily n PER_PAGE v =
             Inr (text, total_pages, max 1 (min n total_pages)) \<and>
           daily_leaderboard_callback daily v query_data =
             Edited text (build_pager_old (max 1 (min n total_pages)) total_pages
                            ''daily_leaderboard''))) \<and>
     (matches_grammar prefix token \<longleftrightarrow>
        (\<exists>k. token = code_points (prefix @ ''_'' @ py_str k))) \<and>
     (\<exists>text total_pages.
        build_leaderboard_text (get_all_users_sorted st 100) m PER_PAGE v =
          Inr (text, total_pages, max 1 (min m total_pages)) \<and>
        leaderboard_callback st v (Some (code_points (''leaderboard_'' @ py_str m))) =
          Edited text (build_pager_old (max 1 (min m total_pages)) total_pages ''leaderboard'')) \<and>
     (\<exists>text total_pages.
        build_leaderboard_text daily m PER_PAGE v =
          Inr (text, total_pages, max 1 (min m total_pages)) \<and>
        daily_leaderboard_callback daily v (Some (code_points (''daily_leaderboard_'' @ py_str m))) =
          Edited text (build_pager_old (max 1 (min m total_pages)) total_pages
                         ''daily_leaderboard'')) \<and>
     leaderboard_callback st v query_data \<noteq> Raised e \<and>
     daily_leaderboard_callback daily v query_data \<noteq> Raised e"
proof -
  have A: "leaderboard_callback st v query_data = Ignored \<longleftrightarrow>
        \<not> accepted ''leaderboard'' token"
    unfolding token_def leaderboard_callback_cases accepted_leaderboard
    by (auto simp: edit_leaderboard_page_def edit_page_not_Ignored split: sum.split)
  have B: "daily_leaderboard_callback daily v query_data = Ignored \<longleftrightarrow>
        \<not> accepted ''daily_leaderboard'' token"
    unfolding token_def daily_leaderboard_callback_cases accepted_daily_leaderboard
    by (auto simp: edit_daily_leaderboard_page_def edit_page_not_Ignored split: sum.split)
  have C: "\<exists>text total_pages.
           build_leaderboard_text (get_all_users_sorted st 100) n PER_PAGE v =
             Inr (text, total_pages, max 1 (min n total_pages)) \<and>
           leaderboard_callback st v query_data =
             Edited text (build_pager_old (max 1 (min n total_pages)) total_pages
                            ''leaderboard'')"
    if "token = code_points ''leaderboard_'' @ rest \<and> py_int rest = Inr n" for rest n
  proof -
    from that have "leaderboard_callback st v query_data = edit_leaderboard_page st v n"
      unfolding token_def by (intro leaderboard_callback_rest) auto
    then show ?thesis
      unfolding edit_leaderboard_page_def by (simp only: edit_page_spec)
  qed
  have D: "\<exists>text total_pages.
           build_leaderboard_text daily n PER_PAGE v =
             Inr (text, total_pages, max 1 (min n total_pages)) \<and>
           daily_leaderboard_callback daily v query_data =
             Edited text (build_pager_old (max 1 (min n total_pages)) total_pages
                            ''daily_leaderboard'')"
    if "token = code_points ''daily_leaderboard_'' @ rest \<and> py_int rest = Inr n" for rest n
  proof -
    from that have "daily_leaderboard_callback daily v query_data =
        edit_daily_leaderboard_page daily v n"
      unfolding token_def by (intro daily_leaderboard_callback_rest) auto
    then show ?thesis
      unfolding edit_daily_leaderboard_page_def by (simp only: edit_page_spec)
  qed
  have G: "matches_grammar prefix token \<longleftrightarrow>
        (\<exists>k. token = code_points (prefix @ ''_'' @ py_str k))"
    by (rule matches_grammar_iff)
  have E: "\<exists>text total_pages.
        build_leaderboard_text (get_all_users_sorted st 100) m PER_PAGE v =
          Inr (text, total_pages, max 1 (min m total_pages)) \<and>
        leaderboard_callback st v (Some (code_points (''leaderboard_'' @ py_str m))) =
          Edited text (build_pager_old (max 1 (min m total_pages)) total_pages ''leaderboard'')"
  proof -
    have "leaderboard_callback st v (Some (code_points (''leaderboard_'' @ py_str m))) =
          edit_leaderboard_page st v m"
      by (rule leaderboard_callback_rest [where rest = "code_points (py_str m)"])
        (simp_all only: option.case py_strip_leaderboard_token py_int_py_str)
    then show ?thesis
      unfolding edit_leaderboard_page_def by (simp only: edit_page_spec)
  qed
  have F: "\<exists>text total_pages.
        build_leaderboard_text daily m PER_PAGE v =
          Inr (text, total_pages, max 1 (min m total_pages)) \<and>
        daily_leaderboard_callback daily v (Some (code_points (''daily_leaderboard_'' @ py_str m))) =
          Edited text (build_pager_old (max 1 (min m total_pages)) total_pages
                         ''daily_leaderboard'')"
  proof -
    have "daily_leaderboard_callback daily v (Some (code_points (''daily_leaderboard_'' @ py_str m))) =
          edit_daily_leaderboard_page daily v m"
      by (rule daily_leaderboard_callback_rest [where rest = "code_points (py_str m)"])
        (simp_all only: option.case py_strip_daily_leaderboard_token py_int_py_str)
    then show ?thesis
      unfolding edit_daily_leaderboard_page_def by (simp only: edit_page_spec)
  qed
  have H: "leaderboard_callback st v query_data \<noteq> Raised e"
    unfolding leaderboard_callback_cases
    by (auto simp: edit_leaderboard_page_def edit_page_not_Raised split: sum.split)
  have I: "daily_leaderboard_callback daily v query_data \<noteq> Raised e"
    unfolding daily_leaderboard_callback_cases
    by (auto simp: edit_daily_leaderboard_page_def edit_page_not_Raised split: sum.split)
  show ?thesis
    by (intro conjI allI impI) (fact A, fact B, rule C, assumption, rule D, assumption,
        fact G, fact E, fact F, fact H, fact I)
qed

theorem page_action_ignored_witness:
  "leaderboard_callback (Inr sample_users) 11 (Some (code_points ''leaderboard:nop'')) = Ignored \<and>
   leaderboard_callback (Inr sample_users) 11 (Some (code_points ''leaderboard_abc'')) = Ignored \<and>
   leaderboard_callback (Inr sample_users) 11 None = Ignored \<and>
   daily_leaderboard_callback daily_example 1 (Some (code_points ''leaderboard_2'')) = Ignored \<and>
   leaderboard_callback (Inr sample_users) 11 (Some (code_points ''leaderboard_2'')) =
     Edited [Title, Entry 1 Gold True ''Ann'' 11 4 (Round1 3 4) 3 1 30 0,
             Entry 2 Silver False ''bob'' 12 4 (Round1 2 4) 2 2 25 0,
             Entry 3 Bronze False ''Unknown'' 13 0 (IntV 0) 0 0 0 0] None \<and>
   leaderboard_callback (Inr sample_users) 11 (Some (code_points ''leaderboard_'' @ [8195, 1634])) =
     Edited [Title, Entry 1 Gold True ''Ann'' 11 4 (Round1 3 4) 3 1 30 0,
             Entry 2 Silver False ''bob'' 12 4 (Round1 2 4) 2 2 25 0,
             Entry 3 Bronze False ''Unknown'' 13 0 (IntV 0) 0 0 0 0] None \<and>
   matches_grammar ''leaderboard'' (code_points ''leaderboard_2'') \<and>
   \<not> matches_grammar ''leaderboard'' (code_points ''leaderboard_'' @ [8195, 1634])"
proof -
  let ?page = "[Title, Entry 1 Gold True ''Ann'' 11 4 (Round1 3 4) 3 1 30 0,
             Entry 2 Silver False ''bob'' 12 4 (Round1 2 4) 2 2 25 0,
             Entry 3 Bronze False ''Unknown'' 13 0 (IntV 0) 0 0 0 0]"
  note ev = code_points_def py_strip_def is_space_def py_int_def is_int_space_def
    to_decimal_def decimal_runs_def
  have 1: "\<not> accepted ''leaderboard'' (py_strip (code_points ''leaderboard:nop''))"
    by (simp add: accepted_def ev)
  have 2: "\<not> accepted ''leaderboard'' (py_strip (code_points ''leaderboard_abc''))"
    by (simp add: accepted_def ev)
  have 3: "\<not> accepted ''leaderboard'' (py_strip [])"
    by (simp add: accepted_def ev)
  have 4: "\<not> accepted ''daily_leaderboard'' (py_strip (code_points ''leaderboard_2''))"
    by (simp add: accepted_def ev)
  have 5: "py_strip (code_points ''leaderboard_2'') =
             code_points ''leaderboard_'' @ code_points ''2'' \<and>
           py_int (code_points ''2'') = Inr 2"
    by (simp add: ev)
  have 6: "py_strip (code_points ''leaderboard_'' @ [8195, 1634]) =
             code_points ''leaderboard_'' @ [8195, 1634] \<and>
           py_int [8195, 1634] = Inr 2"
    by (simp add: ev)
  have 7: "code_points ''leaderboard_2'' = code_points (''leaderboard'' @ ''_'' @ py_str 2)"
    by (simp add: py_str_def str_nat.simps digit_char_def code_points_def)
  have 8: "\<not> matches_grammar ''leaderboard'' (code_points ''leaderboard_'' @ [8195, 1634])"
    by (simp add: matches_grammar_def is_numeral_def py_str_def str_nat.simps digit_char_def ev)
  have n: "build_pager_old 1 1 ''leaderboard'' = None" by (simp add: build_pager_old_def)
  note t = page_action_ignored [where e = ValueError and st = "Inr sample_users" and v = 11
      and daily = daily_example and m = 2 and prefix = "''leaderboard''"]
  from t [where query_data = "Some (code_points ''leaderboard:nop'')", THEN conjunct1] 1
  have a: "leaderboard_callback (Inr sample_users) 11 (Some (code_points ''leaderboard:nop'')) =
      Ignored"
    by simp
  from t [where query_data = "Some (code_points ''leaderboard_abc'')", THEN conjunct1] 2
  have b: "leaderboard_callback (Inr sample_users) 11 (Some (code_points ''leaderboard_abc'')) =
      Ignored"
    by simp
  from t [where query_data = None, THEN conjunct1] 3
  have c: "leaderboard_callback (Inr sample_users) 11 None = Ignored" by simp
  from page_action_ignored [where daily = daily_example and v = 1
      and query_data = "Some (code_points ''leaderboard_2'')", THEN conjunct2, THEN conjunct1] 4
  have d: "daily_leaderboard_callback daily_example 1 (Some (code_points ''leaderboard_2'')) =
      Ignored"
    by simp
  have ed: "leaderboard_callback (Inr sample_users) 11 (Some tok) = Edited ?page None"
    if "py_strip tok = code_points ''leaderboard_'' @ rest \<and> py_int rest = Inr 2" for tok rest
  proof -
    from t [where query_data = "Some tok", THEN conjunct2, THEN conjunct2, THEN conjunct1,
        rule_format, of rest 2] that
    obtain rendered tp where
      "build_leaderboard_text (get_all_users_sorted (Inr sample_users) 100) 2 PER_PAGE 11 =
         Inr (rendered, tp, max 1 (min 2 tp))"
      "leaderboard_callback (Inr sample_users) 11 (Some tok) =
         Edited rendered (build_pager_old (max 1 (min 2 tp)) tp ''leaderboard'')"
      by auto
    then show ?thesis
      unfolding sample_ordering_id sample_single_page using n by auto
  qed
  from 5 have e: "leaderboard_callback (Inr sample_users) 11
      (Some (code_points ''leaderboard_2'')) = Edited ?page None"
    by (rule ed)
  from 6 have f: "leaderboard_callback (Inr sample_users) 11
      (Some (code_points ''leaderboard_'' @ [8195, 1634])) = Edited ?page None"
    by (rule ed)
  have s5: "py_strip (case Some (code_points ''leaderboard_2'') of None \<Rightarrow> [] | Some d \<Rightarrow> d) =
            code_points ''leaderboard_2''"
    by (simp add: ev)
  note g0 = t [where query_data = "Some (code_points ''leaderboard_2'')", THEN conjunct2,
      THEN conjunct2, THEN conjunct2, THEN conjunct2, THEN conjunct1, unfolded s5]
  have "\<exists>k. code_points ''leaderboard_2'' = code_points (''leaderboard'' @ ''_'' @ py_str k)"
    using 7 by (rule exI)
  then have g: "matches_grammar ''leaderboard'' (code_points ''leaderboard_2'')"
    by (rule iffD2 [OF g0])
  show ?thesis by (intro conjI) (fact a, fact b, fact c, fact d, fact e, fact f, fact g, fact 8)
qed

end
